theory Spec2Isabelle
  imports Complex_Main "HOL-Library.Word" "HOL-Library.Signed_Division" "HOL-Library.Log_Nat"
begin

unbundle bit_operations_syntax

chapter \<open>Pulse: the ICMP echo client of internal/icmp/icmp.go\<close>

section \<open>Data model\<close>

type_synonym byte = "8 word"

text \<open>\<open>net.IP\<close> is a byte slice; \<open>time.Duration\<close> is a count of nanoseconds. The
  counters and durations of the program are Go \<open>int\<close>/\<open>int64\<close>; they are modelled as
  unbounded integers, a counter growing by one per call and a duration being bounded by the
  reply timeout (wrap-around at \<open>2 ^ 63\<close> is outside this model).\<close>

type_synonym IP = "byte list"
type_synonym Duration = int

text \<open>Error values. \<open>SysError\<close> is an error handed back by the operating system or by
  a library call; the other constructors are the wrappers built with \<open>fmt.Errorf\<close> in
  \<open>Resolve\<close> and \<open>SendPing\<close>.\<close>

datatype go_error =
    SysError string
  | LookupError string go_error
  | NoUsableIP string
  | ListenError go_error
  | BuildError go_error
  | WriteError go_error

text \<open>\<open>icmp.Type\<close> is an interface implemented by \<open>ipv4.ICMPType\<close> and
  \<open>ipv6.ICMPType\<close>; two interface values are equal when the dynamic type and the number
  agree. Type 8 = Echo Request, type 0 = Echo Reply (IPv4); type 128 = Echo Request,
  type 129 = Echo Reply (IPv6).\<close>

datatype icmp_type = ICMPv4Type int | ICMPv6Type int

definition ICMPTypeEcho :: icmp_type where
  "ICMPTypeEcho = ICMPv4Type 8"

definition ICMPTypeEchoReply :: icmp_type where
  "ICMPTypeEchoReply = ICMPv4Type 0"

definition ICMPv6TypeEchoRequest :: icmp_type where
  "ICMPv6TypeEchoRequest = ICMPv6Type 128"

definition ICMPv6TypeEchoReply :: icmp_type where
  "ICMPv6TypeEchoReply = ICMPv6Type 129"

definition ProtocolICMP :: int where
  "ProtocolICMP = 1"

definition ProtocolICMPv6 :: int where
  "ProtocolICMPv6 = 58"

definition DefaultPayloadSize :: int where
  "DefaultPayloadSize = 56"

definition DefaultTimeout :: Duration where
  "DefaultTimeout = 3 * 1000000000"

text \<open>\<open>icmp.Echo\<close> (its field \<open>Seq\<close> is \<open>EchoSeq\<close> here) and \<open>icmp.Message\<close>. A
  message body that is not an \<open>*icmp.Echo\<close> is \<open>OtherBody\<close>: the type assertion of
  \<open>SendPing\<close> fails on it.\<close>

record Echo =
  ID :: int
  EchoSeq :: int
  Data :: "byte list"

datatype message_body = EchoBody Echo | OtherBody

record Message =
  Type :: icmp_type
  Code :: int
  Body :: message_body

text \<open>The struct \<open>Pinger\<close>; its field \<open>id\<close> is \<open>ident\<close> here, and a nil \<open>addr\<close> is
  \<open>None\<close>.\<close>

record Pinger =
  Host :: string
  Count :: int
  Interval :: Duration
  Timeout :: Duration
  PayloadSize :: int
  Verbose :: bool
  ident :: int
  isIPv6 :: bool
  addr :: "IP option"
  network :: string
  sent :: int
  received :: int
  rtts :: "Duration list"

text \<open>The struct \<open>Result\<close>; a nil \<open>Error\<close> is \<open>None\<close>.\<close>

record Result =
  Seq :: int
  RTT :: Duration
  Received :: bool
  Error :: "go_error option"

text \<open>The struct \<open>Stats\<close> (fields \<open>Received\<close>, \<open>Min\<close>, \<open>Max\<close> carry the suffix
  \<open>_st\<close>). \<open>Loss\<close> is a \<open>float64\<close>: every finite \<open>float64\<close> is a rational number, and
  the field holds that number.\<close>

record Stats =
  Sent :: int
  Received_st :: int
  Lost :: int
  Loss :: rat
  Min_st :: Duration
  Max_st :: Duration
  Avg :: Duration

text \<open>A Go function either returns or panics.\<close>

datatype panic = MakeSliceLenOutOfRange | SliceBoundsOutOfRange

datatype 'a outcome = Returns 'a | Panics panic

subsection \<open>What the program calls but does not define\<close>

text \<open>The functions of \<open>net\<close> and \<open>golang.org/x/net/icmp\<close> that the program calls are
  parameters of the model: \<open>msg.Marshal(nil)\<close>, \<open>icmp.ParseMessage(proto, b)\<close>,
  \<open>ip.To4()\<close> and \<open>ip.To16()\<close> (a nil result is \<open>None\<close>).\<close>

record netlib =
  Marshal :: "Message \<Rightarrow> go_error + byte list"
  ParseMessage :: "int \<Rightarrow> byte list \<Rightarrow> go_error + Message"
  To4 :: "IP \<Rightarrow> IP option"
  To16 :: "IP \<Rightarrow> IP option"

text \<open>What one call of \<open>SendPing\<close> meets outside the program: the result of
  \<open>icmp.ListenPacket\<close> (\<open>None\<close>: a connection), the clock value
  \<open>uint64(time.Now().UnixNano())\<close> read in \<open>buildRequest\<close>, the result of
  \<open>conn.WriteTo\<close> (\<open>None\<close>: written), and, for every \<open>i\<close>, the result of the
  \<open>i\<close>-th call of \<open>conn.ReadFrom\<close>: an error (the read deadline has passed, or any
  other failure) or a datagram together with the value of \<open>time.Since(sendTime)\<close> taken
  right after that read.\<close>

datatype read_event = ReadError go_error | Datagram "byte list" Duration

record probe_env =
  listen :: "go_error option"
  now :: "64 word"
  writeTo :: "go_error option"
  readFrom :: "nat \<Rightarrow> read_event"

section \<open>Checksum\<close>

text \<open>The first loop of \<open>Checksum\<close>: \<open>for i := 0; i < len(b)-1; i += 2\<close>, with the
  \<open>uint32\<close> accumulator \<open>sum\<close> (named \<open>s\<close> here).\<close>

function sum_loop :: "byte list \<Rightarrow> nat \<Rightarrow> 32 word \<Rightarrow> 32 word" where
  "sum_loop b i s =
     (if int i < int (length b) - 1
      then sum_loop b (i + 2) (s + (push_bit 8 (ucast (b ! i)) OR ucast (b ! (i + 1))))
      else s)"
  by pat_completeness auto
termination
  by (relation "measure (\<lambda>(b, i, s). length b - i)") auto

lemma drop16: "unat (drop_bit 16 (w::32 word)) = unat w div 65536"
  apply (subst unat_drop_bit_eq)
  apply (simp add: drop_bit_eq_div)
  done

lemma and_mask16: "unat ((w::32 word) AND 0xffff) = unat w mod 65536"
proof -
  have "(0xffff :: 32 word) = mask 16" by (simp add: mask_eq_exp_minus_1)
  then have "unat (w AND 0xffff) = unat (take_bit 16 w)" by (simp only: take_bit_eq_mask)
  also have "\<dots> = take_bit 16 (unat w)" by (rule unsigned_take_bit_eq)
  also have "\<dots> = unat w mod 65536" unfolding take_bit_eq_mod by simp
  finally show ?thesis .
qed

lemma fold_step_less:
  assumes "drop_bit 16 (s :: 32 word) \<noteq> 0"
  shows "unat ((s AND 0xffff) + drop_bit 16 s) < unat s"
proof -
  have "unat (drop_bit 16 s) \<noteq> 0" using assms unfolding unat_eq_0 .
  then have q: "unat s div 65536 \<noteq> 0" unfolding drop16 .
  have "unat ((s AND 0xffff) + drop_bit 16 s) \<le> unat (s AND 0xffff) + unat (drop_bit 16 s)"
    unfolding unat_word_ariths by (rule mod_less_eq_dividend)
  also have "\<dots> = unat s mod 65536 + unat s div 65536" unfolding and_mask16 drop16 ..
  also have "\<dots> < unat s"
  proof -
    have "unat s = 65536 * (unat s div 65536) + unat s mod 65536" by simp
    then show ?thesis using q by linarith
  qed
  finally show ?thesis .
qed

text \<open>The second loop: \<open>for sum>>16 != 0 { sum = (sum & 0xffff) + (sum >> 16) }\<close>.\<close>

function fold_loop :: "32 word \<Rightarrow> 32 word" where
  "fold_loop s =
     (if drop_bit 16 s \<noteq> 0 then fold_loop ((s AND 0xffff) + drop_bit 16 s) else s)"
  by pat_completeness auto
termination
  by (relation "measure unat") (auto simp: fold_step_less)

definition Checksum :: "byte list \<Rightarrow> 16 word" where
  "Checksum b =
     (let s = sum_loop b 0 0;
          s = (if length b mod 2 \<noteq> 0 then s + push_bit 8 (ucast (b ! (length b - 1))) else s);
          s = fold_loop s
      in NOT (ucast s))"

section \<open>The session\<close>

text \<open>\<open>NewPinger\<close>; \<open>pid\<close> is the value of \<open>os.Getpid()\<close>.\<close>

definition NewPinger :: "string \<Rightarrow> int \<Rightarrow> Pinger" where
  "NewPinger host pid =
     \<lparr>Host = host, Count = 4, Interval = 1000000000, Timeout = DefaultTimeout,
      PayloadSize = DefaultPayloadSize, Verbose = False, ident = pid AND 0xffff,
      isIPv6 = False, addr = None, network = [], sent = 0, received = 0, rtts = []\<rparr>"

text \<open>The two loops of \<open>Resolve\<close> over the addresses of the lookup: the first one returns
  at the first address with a non-nil \<open>To4\<close> and keeps the converted address, the second one
  at the first address with a non-nil \<open>To16\<close> and keeps the address itself.\<close>

fun first_To4 :: "netlib \<Rightarrow> IP list \<Rightarrow> IP option" where
  "first_To4 lib [] = None"
| "first_To4 lib (ip # ips) =
     (case To4 lib ip of Some ip4 \<Rightarrow> Some ip4 | None \<Rightarrow> first_To4 lib ips)"

fun first_To16 :: "netlib \<Rightarrow> IP list \<Rightarrow> IP option" where
  "first_To16 lib [] = None"
| "first_To16 lib (ip # ips) =
     (if To16 lib ip \<noteq> None then Some ip else first_To16 lib ips)"

text \<open>\<open>Resolve\<close>; \<open>lookup\<close> is the result of \<open>net.LookupIP(p.Host)\<close>. The function
  returns its error (\<open>None\<close> for nil) and the session as it has left it.\<close>

definition Resolve :: "netlib \<Rightarrow> go_error + IP list \<Rightarrow> Pinger \<Rightarrow> go_error option \<times> Pinger" where
  "Resolve lib lookup p =
     (case lookup of
        Inl err \<Rightarrow> (Some (LookupError (Host p) err), p)
      | Inr ips \<Rightarrow>
          (case first_To4 lib ips of
             Some ip4 \<Rightarrow> (None, p\<lparr>addr := Some ip4, network := ''ip4:icmp'', isIPv6 := False\<rparr>)
           | None \<Rightarrow>
               (case first_To16 lib ips of
                  Some ip \<Rightarrow>
                    (None, p\<lparr>addr := Some ip, network := ''ip6:ipv6-icmp'', isIPv6 := True\<rparr>)
                | None \<Rightarrow> (Some (NoUsableIP (Host p)), p))))"

text \<open>\<open>binary.BigEndian.PutUint64\<close> into an 8-byte slice: the eight bytes it writes.\<close>

definition PutUint64 :: "64 word \<Rightarrow> byte list" where
  "PutUint64 v = map (\<lambda>k. ucast (drop_bit (8 * (7 - k)) v)) [0..<8]"

text \<open>\<open>buildRequest\<close>. \<open>make([]byte, p.PayloadSize)\<close> panics on a negative length, and
  the slice expression \<open>payload[:8]\<close> panics when the slice has fewer than 8 bytes; both
  come before anything else the function does. Memory is assumed to suffice for the
  allocation.\<close>

definition buildRequest ::
  "netlib \<Rightarrow> 64 word \<Rightarrow> Pinger \<Rightarrow> int \<Rightarrow> (go_error + byte list) outcome" where
  "buildRequest lib clock p seq =
     (if PayloadSize p < 0 then Panics MakeSliceLenOutOfRange
      else let payload = replicate (nat (PayloadSize p)) (0 :: byte) in
        if length payload < 8 then Panics SliceBoundsOutOfRange
        else let payload = PutUint64 clock @ drop 8 payload;
                 msgType = (if isIPv6 p then ICMPv6TypeEchoRequest else ICMPTypeEcho);
                 msg = \<lparr>Type = msgType, Code = 0,
                        Body = EchoBody \<lparr>ID = ident p, EchoSeq = seq, Data = payload\<rparr>\<rparr>
             in Returns (Marshal lib msg))"

text \<open>The receive loop of \<open>SendPing\<close>, \<open>for { ... }\<close>, at its \<open>i\<close>-th read. The loop
  has no bound of its own: it ends when a read fails or a reply matches, and a run that
  never ends is \<open>None\<close>. The buffer holds 1500 bytes, so at most that many bytes of a
  datagram reach the parser.\<close>

partial_function (option) recv_loop ::
  "netlib \<Rightarrow> Pinger \<Rightarrow> int \<Rightarrow> (nat \<Rightarrow> read_event) \<Rightarrow> nat \<Rightarrow> (Result \<times> Pinger) option" where
  "recv_loop lib p seq rd i =
     (case rd i of
        ReadError err \<Rightarrow> Some (\<lparr>Seq = seq, RTT = 0, Received = False, Error = None\<rparr>, p)
      | Datagram d rtt \<Rightarrow>
          (case ParseMessage lib (if isIPv6 p then ProtocolICMPv6 else ProtocolICMP) (take 1500 d) of
             Inl err \<Rightarrow> recv_loop lib p seq rd (i + 1)
           | Inr msg \<Rightarrow>
               if Type msg \<noteq> (if isIPv6 p then ICMPv6TypeEchoReply else ICMPTypeEchoReply)
               then recv_loop lib p seq rd (i + 1)
               else (case Body msg of
                       OtherBody \<Rightarrow> recv_loop lib p seq rd (i + 1)
                     | EchoBody echo \<Rightarrow>
                         if ID echo \<noteq> ident p \<or> EchoSeq echo \<noteq> seq
                         then recv_loop lib p seq rd (i + 1)
                         else Some (\<lparr>Seq = seq, RTT = rtt, Received = True, Error = None\<rparr>,
                                    p\<lparr>received := received p + 1, rtts := rtts p @ [rtt]\<rparr>))))"

text \<open>\<open>SendPing\<close>: the result or the panic, and the session as the call has left it;
  \<open>None\<close> when the call never returns. The code discards the error of
  \<open>conn.SetReadDeadline\<close>, so that call leaves no trace in the result; what it arms shows in
  the reads.\<close>

definition SendPing ::
  "netlib \<Rightarrow> probe_env \<Rightarrow> Pinger \<Rightarrow> int \<Rightarrow> (Result outcome \<times> Pinger) option" where
  "SendPing lib env p seq =
     (case listen env of
        Some err \<Rightarrow>
          Some (Returns \<lparr>Seq = seq, RTT = 0, Received = False, Error = Some (ListenError err)\<rparr>, p)
      | None \<Rightarrow>
          (case buildRequest lib (now env) p seq of
             Panics r \<Rightarrow> Some (Panics r, p)
           | Returns (Inl err) \<Rightarrow>
               Some (Returns \<lparr>Seq = seq, RTT = 0, Received = False, Error = Some (BuildError err)\<rparr>, p)
           | Returns (Inr data) \<Rightarrow>
               (case writeTo env of
                  Some err \<Rightarrow>
                    Some (Returns \<lparr>Seq = seq, RTT = 0, Received = False,
                                   Error = Some (WriteError err)\<rparr>, p)
                | None \<Rightarrow>
                    map_option (\<lambda>(r, p'). (Returns r, p'))
                      (recv_loop lib (p\<lparr>sent := sent p + 1\<rparr>) seq (readFrom env) 0))))"

text \<open>The loop of \<open>Statistics\<close> over \<open>p.rtts\<close>, on the triple \<open>(total, s.Min, s.Max)\<close>, \<open>total\<close> being \<open>tot\<close> here.\<close>

fun rtt_loop :: "Duration list \<Rightarrow> Duration \<times> Duration \<times> Duration \<Rightarrow> Duration \<times> Duration \<times> Duration" where
  "rtt_loop [] acc = acc"
| "rtt_loop (r # rs) (tot, mn, mx) =
     rtt_loop rs (tot + r, (if r < mn then r else mn), (if r > mx then r else mx))"

subsection \<open>float64 arithmetic\<close>

text \<open>Go's \<open>float64\<close> is the IEEE 754 binary64 format: a conversion and each arithmetic
  operation give the exact result rounded to the nearest number with a 53-bit significand,
  ties going to the even significand. \<open>pow2 e\<close> is \<open>2\<close> to the power \<open>e\<close>;
  \<open>exponent x\<close>, for a positive \<open>x\<close>, is the \<open>e\<close> with \<open>2 ^ e \<le> x < 2 ^ (e + 1)\<close>, found
  from the bit lengths of numerator and denominator. Overflow to infinity and the
  subnormal range are not modelled: counters in the range of \<open>int64\<close> give quotients
  between \<open>2 ^ - 63\<close> and \<open>2 ^ 63\<close> in magnitude, far from both.\<close>

definition pow2 :: "int \<Rightarrow> rat" where
  "pow2 e = (if 0 \<le> e then 2 ^ nat e else 1 / 2 ^ nat (- e))"

definition round_half_even :: "rat \<Rightarrow> int" where
  "round_half_even x =
     (let f = \<lfloor>x\<rfloor>; d = x - of_int f
      in if d < 1 / 2 then f else if 1 / 2 < d then f + 1 else if even f then f else f + 1)"

definition exponent :: "rat \<Rightarrow> int" where
  "exponent x =
     (case quotient_of x of
        (a, b) \<Rightarrow> let e0 = bitlen a - bitlen b in if x < pow2 e0 then e0 - 1 else e0)"

definition round64 :: "rat \<Rightarrow> rat" where
  "round64 x =
     (if x = 0 then 0
      else let e = exponent \<bar>x\<bar>; m = round_half_even (\<bar>x\<bar> * pow2 (52 - e))
           in sgn x * of_int m * pow2 (e - 52))"

text \<open>The conversion \<open>float64(n)\<close> of an integer, and the quotient and the product of two
  \<open>float64\<close> values.\<close>

definition float64 :: "int \<Rightarrow> rat" where
  "float64 n = round64 (of_int n)"

definition fdiv :: "rat \<Rightarrow> rat \<Rightarrow> rat" where
  "fdiv x y = round64 (x / y)"

definition fmul :: "rat \<Rightarrow> rat \<Rightarrow> rat" where
  "fmul x y = round64 (x * y)"

subsection \<open>Statistics\<close>

text \<open>\<open>Statistics\<close>. The loss is \<open>float64(s.Lost) / float64(p.sent) * 100\<close>, the constant
  being the \<open>float64\<close> 100. Go's integer division truncates towards zero (\<open>sdiv\<close>).\<close>

definition Statistics :: "Pinger \<Rightarrow> Stats" where
  "Statistics p =
     (let s = \<lparr>Sent = sent p, Received_st = received p, Lost = sent p - received p,
               Loss = 0, Min_st = 0, Max_st = 0, Avg = 0\<rparr>;
          s = (if sent p > 0 then s\<lparr>Loss := fmul (fdiv (float64 (Lost s)) (float64 (sent p))) 100\<rparr>
               else s)
      in if length (rtts p) = 0 then s
         else (case rtt_loop (rtts p) (0, rtts p ! 0, rtts p ! 0) of
                 (tot, mn, mx) \<Rightarrow>
                   s\<lparr>Min_st := mn, Max_st := mx, Avg := tot sdiv int (length (rtts p))\<rparr>))"

declare sum_loop.simps [simp del] fold_loop.simps [simp del]

section \<open>Reference definitions for the checksum\<close>

text \<open>The one's-complement checksum of RFC 1071 as the specification words it, on
  natural numbers and with no accumulator width: the successive 16-bit big-endian words
  of the input, a trailing odd byte being the high byte of a zero-padded word.\<close>

fun be_words :: "byte list \<Rightarrow> nat list" where
  "be_words (hi # lo # rest) = (256 * unat hi + unat lo) # be_words rest"
| "be_words [hi] = [256 * unat hi]"
| "be_words [] = []"

text \<open>Folding: while bits above bit 15 remain, add them to the low 16 bits.\<close>

function fold_carries :: "nat \<Rightarrow> nat" where
  "fold_carries s = (if s div 65536 \<noteq> 0 then fold_carries (s mod 65536 + s div 65536) else s)"
  by pat_completeness auto
termination
proof (relation "measure (\<lambda>s. s)")
  show "wf (measure (\<lambda>s. s))" by simp
next
  fix s :: nat
  assume q: "s div 65536 \<noteq> 0"
  have "s = 65536 * (s div 65536) + s mod 65536" by simp
  then have "s mod 65536 + s div 65536 < s" using q by linarith
  then show "(s mod 65536 + s div 65536, s) \<in> measure (\<lambda>s. s)" by simp
qed

declare fold_carries.simps [simp del]

text \<open>The complement of the folded sum of the words.\<close>

definition rfc1071 :: "byte list \<Rightarrow> 16 word" where
  "rfc1071 b = NOT (of_nat (fold_carries (sum_list (be_words b))))"

text \<open>The byte sequence formed by a list of 16-bit words, and the words of the worked
  example.\<close>

definition bytes_of_words :: "16 word list \<Rightarrow> byte list" where
  "bytes_of_words ws = concat (map (\<lambda>w. [ucast (drop_bit 8 w), ucast w]) ws)"

definition rfc1071_vector :: "16 word list" where
  "rfc1071_vector = [0x4500, 0x0073, 0x0000, 0x4000, 0x4011, 0x0000, 0xc0a8, 0x0001, 0xc0a8, 0x00c7]"

text \<open>An input of 131076 bytes, all \<open>0xff\<close>.\<close>

definition long_input :: "byte list" where
  "long_input = replicate 131076 0xff"

text \<open>The part of the accumulator that the odd-length branch of \<open>Checksum\<close> adds.\<close>

definition odd_tail :: "byte list \<Rightarrow> 32 word" where
  "odd_tail b = (if length b mod 2 \<noteq> 0 then push_bit 8 (ucast (b ! (length b - 1))) else 0)"

text \<open>Storing a 16-bit value big-endian at offset \<open>off\<close>, as
  \<open>binary.BigEndian.PutUint16(b[off:], v)\<close> does: the insertion of a checksum into its
  field.\<close>

definition PutUint16 :: "byte list \<Rightarrow> nat \<Rightarrow> 16 word \<Rightarrow> byte list" where
  "PutUint16 b off v = b[off := ucast (drop_bit 8 v), off + 1 := ucast v]"

section \<open>Sessions, runs and the reply test\<close>

text \<open>The test that the receive loop applies to a datagram, as one predicate: the
  datagram parses, the type is the Echo Reply type of the session's family, the body is an
  echo, the identifier is the session's and the sequence number is the requested one.\<close>

definition accepts :: "netlib \<Rightarrow> Pinger \<Rightarrow> int \<Rightarrow> byte list \<Rightarrow> bool" where
  "accepts lib p seq d =
     (case ParseMessage lib (if isIPv6 p then ProtocolICMPv6 else ProtocolICMP) (take 1500 d) of
        Inl err \<Rightarrow> False
      | Inr msg \<Rightarrow>
          Type msg = (if isIPv6 p then ICMPv6TypeEchoReply else ICMPTypeEchoReply)
          \<and> (case Body msg of
                OtherBody \<Rightarrow> False
              | EchoBody echo \<Rightarrow> ID echo = ident p \<and> EchoSeq echo = seq))"

text \<open>No datagram before the \<open>k\<close>-th read is accepted.\<close>

definition none_accepted :: "netlib \<Rightarrow> Pinger \<Rightarrow> int \<Rightarrow> (nat \<Rightarrow> read_event) \<Rightarrow> nat \<Rightarrow> bool" where
  "none_accepted lib p seq rd k =
     (\<forall>j<k. case rd j of ReadError err \<Rightarrow> True | Datagram d rtt \<Rightarrow> \<not> accepts lib p seq d)"

text \<open>What the loop returns, it returns at some read \<open>k\<close>: every read before it gave a
  datagram that was discarded, and the \<open>k\<close>-th is an error or an accepted datagram.\<close>

definition ends_at ::
  "netlib \<Rightarrow> Pinger \<Rightarrow> int \<Rightarrow> (nat \<Rightarrow> read_event) \<Rightarrow> nat \<Rightarrow> nat \<Rightarrow> Result \<times> Pinger \<Rightarrow> bool" where
  "ends_at lib p seq rd i k y \<longleftrightarrow>
     i \<le> k \<and> (\<forall>j. i \<le> j \<and> j < k \<longrightarrow> (\<exists>d t. rd j = Datagram d t \<and> \<not> accepts lib p seq d))
     \<and> ((\<exists>e. rd k = ReadError e
             \<and> y = (\<lparr>Seq = seq, RTT = 0, Received = False, Error = None\<rparr>, p))
        \<or> (\<exists>d t. rd k = Datagram d t \<and> accepts lib p seq d
             \<and> y = (\<lparr>Seq = seq, RTT = t, Received = True, Error = None\<rparr>,
                    p\<lparr>received := received p + 1, rtts := rtts p @ [t]\<rparr>)))"

text \<open>The request reached the wire: the socket opened, the packet was built and
  \<open>WriteTo\<close> returned no error.\<close>

definition transmitted :: "netlib \<Rightarrow> probe_env \<Rightarrow> Pinger \<Rightarrow> int \<Rightarrow> bool" where
  "transmitted lib env p seq =
     (listen env = None \<and> writeTo env = None
      \<and> (case buildRequest lib (now env) p seq of Returns (Inr data) \<Rightarrow> True | _ \<Rightarrow> False))"

text \<open>The message that \<open>buildRequest\<close> hands to \<open>Marshal\<close>.\<close>

definition echo_request :: "64 word \<Rightarrow> Pinger \<Rightarrow> int \<Rightarrow> Message" where
  "echo_request clock p seq =
     \<lparr>Type = (if isIPv6 p then ICMPv6TypeEchoRequest else ICMPTypeEcho), Code = 0,
      Body = EchoBody \<lparr>ID = ident p, EchoSeq = seq,
                       Data = PutUint64 clock @ replicate (nat (PayloadSize p) - 8) 0\<rparr>\<rparr>"

text \<open>A session: the probes of a caller, one \<open>SendPing\<close> after the other, each with
  what it meets outside and its sequence number; the results are collected. A probe that
  panics or never returns ends the program, and the session has no result.\<close>

fun session :: "netlib \<Rightarrow> (probe_env \<times> int) list \<Rightarrow> Pinger \<Rightarrow> (Result list \<times> Pinger) option" where
  "session lib [] p = Some ([], p)"
| "session lib ((env, seq) # rest) p =
     (case SendPing lib env p seq of
        None \<Rightarrow> None
      | Some (Panics r, p') \<Rightarrow> None
      | Some (Returns r, p') \<Rightarrow>
          (case session lib rest p' of
             None \<Rightarrow> None
           | Some (rs, p'') \<Rightarrow> Some (r # rs, p'')))"

text \<open>Of the results of a session: how many carry no error (their request was
  transmitted), and the round-trip times of the received ones, in order.\<close>

definition transmitted_count :: "Result list \<Rightarrow> int" where
  "transmitted_count rs = int (length (filter (\<lambda>r. Error r = None) rs))"

definition received_rtts :: "Result list \<Rightarrow> Duration list" where
  "received_rtts rs = map RTT (filter Received rs)"

text \<open>The calls a user of the package can make on a \<open>Pinger\<close>, in any order: the three
  methods, and assignments to the exported fields (as \<open>main\<close> does before resolving). A
  run is a list of calls; a call that never returns ends it. After a panic of \<open>SendPing\<close>
  the session is as the call has left it.\<close>

datatype call =
    CallResolve "go_error + IP list"
  | CallSendPing probe_env int
  | CallStatistics
  | CallAssign string int Duration Duration int bool

fun step :: "netlib \<Rightarrow> call \<Rightarrow> Pinger \<Rightarrow> Pinger option" where
  "step lib (CallResolve lookup) p = Some (snd (Resolve lib lookup p))"
| "step lib (CallSendPing env seq) p = map_option snd (SendPing lib env p seq)"
| "step lib CallStatistics p = (let s = Statistics p in Some p)"
| "step lib (CallAssign h c i t n v) p =
     Some (p\<lparr>Host := h, Count := c, Interval := i, Timeout := t, PayloadSize := n, Verbose := v\<rparr>)"

fun run :: "netlib \<Rightarrow> call list \<Rightarrow> Pinger \<Rightarrow> Pinger option" where
  "run lib [] p = Some p"
| "run lib (c # cs) p = (case step lib c p of None \<Rightarrow> None | Some p' \<Rightarrow> run lib cs p')"

section \<open>An instance of the library\<close>

text \<open>Modelled from the spec: \<open>Message.Marshal\<close> of golang.org/x/net/icmp, which is not
  part of the repository. The specification of Build Request gives the layout: type, code
  0, checksum, identifier, sequence number, payload; for IPv4 the checksum is computed over
  header and payload with the checksum field zero and then inserted, for IPv6 the field is
  left zero; encoding fails only if the identifier or the sequence number exceeds 16
  bits.\<close>

definition type_number :: "icmp_type \<Rightarrow> int" where
  "type_number t = (case t of ICMPv4Type n \<Rightarrow> n | ICMPv6Type n \<Rightarrow> n)"

definition be16 :: "int \<Rightarrow> byte list" where
  "be16 n = [of_int (n div 256), of_int n]"

definition spec_Marshal :: "Message \<Rightarrow> go_error + byte list" where
  "spec_Marshal msg =
     (case Body msg of
        OtherBody \<Rightarrow> Inl (SysError ''encoding: not an echo message'')
      | EchoBody echo \<Rightarrow>
          if ID echo < 0 \<or> 0xffff < ID echo \<or> EchoSeq echo < 0 \<or> 0xffff < EchoSeq echo
          then Inl (SysError ''encoding: identifier or sequence exceeds 16 bits'')
          else let b = [of_int (type_number (Type msg)), of_int (Code msg), 0, 0]
                       @ be16 (ID echo) @ be16 (EchoSeq echo) @ Data echo
               in (case Type msg of
                     ICMPv4Type n \<Rightarrow> Inr (PutUint16 b 2 (Checksum b))
                   | ICMPv6Type n \<Rightarrow> Inr b))"

text \<open>Modelled from the spec: \<open>icmp.ParseMessage\<close> of golang.org/x/net/icmp, which is not
  part of the repository. The specification of Parse Reply: validate the minimum length
  (the 8-byte header), extract type, code, identifier, sequence number and payload; fail
  on truncated input or on a type that is not an echo type of the given family.\<close>

definition spec_ParseMessage :: "int \<Rightarrow> byte list \<Rightarrow> go_error + Message" where
  "spec_ParseMessage proto b =
     (if length b < 8 then Inl (SysError ''parse: message too short'')
      else let t = (if proto = ProtocolICMPv6 then ICMPv6Type (uint (b ! 0))
                    else ICMPv4Type (uint (b ! 0)))
           in if t = ICMPTypeEcho \<or> t = ICMPTypeEchoReply
                 \<or> t = ICMPv6TypeEchoRequest \<or> t = ICMPv6TypeEchoReply
              then Inr \<lparr>Type = t, Code = uint (b ! 1),
                        Body = EchoBody \<lparr>ID = 256 * uint (b ! 4) + uint (b ! 5),
                                         EchoSeq = 256 * uint (b ! 6) + uint (b ! 7),
                                         Data = drop 8 b\<rparr>\<rparr>
              else Inl (SysError ''parse: unrecognized type''))"

text \<open>\<open>IP.To4\<close> and \<open>IP.To16\<close> of the Go standard library, as its documentation gives
  them: a 4-byte address is an IPv4 address, a 16-byte address with the prefix
  \<open>::ffff:0:0/96\<close> is an IPv4 address in its last four bytes, any other 16-byte address
  is an IPv6 address, and every other length is no address.\<close>

definition go_To4 :: "IP \<Rightarrow> IP option" where
  "go_To4 ip =
     (if length ip = 4 then Some ip
      else if length ip = 16 \<and> take 10 ip = replicate 10 0 \<and> ip ! 10 = 0xff \<and> ip ! 11 = 0xff
      then Some (drop 12 ip)
      else None)"

definition go_To16 :: "IP \<Rightarrow> IP option" where
  "go_To16 ip =
     (if length ip = 4 then Some (replicate 10 0 @ [0xff, 0xff] @ ip)
      else if length ip = 16 then Some ip
      else None)"

definition spec_lib :: netlib where
  "spec_lib = \<lparr>Marshal = spec_Marshal, ParseMessage = spec_ParseMessage,
               To4 = go_To4, To16 = go_To16\<rparr>"

section \<open>Concrete sessions\<close>

text \<open>A session for the host \<open>localhost\<close>, process 70000 (identifier
  \<open>70000 AND 0xffff = 4464\<close>), resolved to 127.0.0.1.\<close>

definition pinger0 :: Pinger where
  "pinger0 = snd (Resolve spec_lib (Inr [[127, 0, 0, 1]]) (NewPinger ''localhost'' 70000))"

text \<open>Datagrams: an Echo Reply for identifier 4464 and sequence number 1; the same reply
  with sequence number 2; an Echo Reply for sequence number 1 of another identifier; a
  datagram that is too short to parse.\<close>

definition reply_1 :: "byte list" where
  "reply_1 = [0, 0, 0x5c, 0xf9, 0x11, 0x70, 0, 1, 0x61, 0x62, 0x63, 0x64, 0x65, 0x66, 0x67, 0x68]"

definition reply_2 :: "byte list" where
  "reply_2 = [0, 0, 0x5c, 0xf8, 0x11, 0x70, 0, 2, 0x61, 0x62, 0x63, 0x64, 0x65, 0x66, 0x67, 0x68]"

definition foreign_reply_1 :: "byte list" where
  "foreign_reply_1 = [0, 0, 0x5c, 0xf8, 0x11, 0x71, 0, 1, 0x61, 0x62, 0x63, 0x64, 0x65, 0x66, 0x67, 0x68]"

definition short_datagram :: "byte list" where
  "short_datagram = [0, 0, 0xff]"

text \<open>What a probe can meet: reads that time out at once; three discarded datagrams, then
  the reply after 2 ms; a failing write; a socket that cannot be opened.\<close>

definition reads_timeout :: "nat \<Rightarrow> read_event" where
  "reads_timeout i = ReadError (SysError ''i/o timeout'')"

definition reads_reply :: "nat \<Rightarrow> read_event" where
  "reads_reply i =
     (if i = 0 then Datagram short_datagram 400000
      else if i = 1 then Datagram reply_2 900000
      else if i = 2 then Datagram foreign_reply_1 1500000
      else if i = 3 then Datagram reply_1 2000000
      else ReadError (SysError ''i/o timeout''))"

definition reads_stale :: "nat \<Rightarrow> read_event" where
  "reads_stale i =
     (if i = 0 then Datagram reply_2 900000
      else if i = 1 then Datagram foreign_reply_1 1500000
      else ReadError (SysError ''i/o timeout''))"



definition env_timeout :: probe_env where
  "env_timeout = \<lparr>listen = None, now = 0x17A0B1C2D3E4F501, writeTo = None, readFrom = reads_timeout\<rparr>"

definition env_reply :: probe_env where
  "env_reply = \<lparr>listen = None, now = 0x17A0B1C2D3E4F501, writeTo = None, readFrom = reads_reply\<rparr>"

definition env_stale :: probe_env where
  "env_stale = \<lparr>listen = None, now = 0x17A0B1C2D3E4F501, writeTo = None, readFrom = reads_stale\<rparr>"

definition env_write_fails :: probe_env where
  "env_write_fails =
     \<lparr>listen = None, now = 0x17A0B1C2D3E4F501,
      writeTo = Some (SysError ''sendto: network is unreachable''), readFrom = reads_reply\<rparr>"

definition env_listen_fails :: probe_env where
  "env_listen_fails =
     \<lparr>listen = Some (SysError ''socket: operation not permitted''), now = 0x17A0B1C2D3E4F501,
      writeTo = None, readFrom = reads_reply\<rparr>"

text \<open>Addresses of a lookup: 2606:4700:4700::1111 and 142.250.80.46.\<close>

definition cloudflare_v6 :: IP where
  "cloudflare_v6 = [0x26, 0x06, 0x47, 0x00, 0x47, 0x00, 0, 0, 0, 0, 0, 0, 0, 0, 0x11, 0x11]"

definition google_v4 :: IP where
  "google_v4 = [142, 250, 80, 46]"

text \<open>A session of three probes (a reply after 2 ms, a reply after 0.9 ms, a timeout) and
  its results.\<close>

definition probes0 :: "(probe_env \<times> int) list" where
  "probes0 = [(env_reply, 1), (env_stale, 2), (env_timeout, 3)]"

definition results0 :: "Result list" where
  "results0 = [\<lparr>Seq = 1, RTT = 2000000, Received = True, Error = None\<rparr>,
               \<lparr>Seq = 2, RTT = 900000, Received = True, Error = None\<rparr>,
               \<lparr>Seq = 3, RTT = 0, Received = False, Error = None\<rparr>]"

text \<open>A run: the caller assigns the exported fields, resolves, sends three probes (a reply,
  a timeout, a failing write) and asks for the statistics.\<close>

definition calls0 :: "call list" where
  "calls0 = [CallAssign ''localhost'' 3 1000000000 3000000000 56 True,
             CallResolve (Inr [[127, 0, 0, 1]]),
             CallSendPing env_reply 1,
             CallSendPing env_timeout 2,
             CallSendPing env_write_fails 3,
             CallStatistics]"

section \<open>The checksum\<close>

lemma be16_word:
  "((push_bit 8 (ucast (a::byte)) OR ucast (b::byte)) :: 32 word) = of_nat (256 * unat a + unat b)"
proof -
  have disj: "\<not> bit (push_bit 8 (ucast a :: 32 word)) n \<or> \<not> bit (ucast b :: 32 word) n" for n
  proof (cases "n < 8")
    case True
    then show ?thesis by (simp add: bit_push_bit_iff)
  next
    case False
    have "\<not> bit b n" using False bit_imp_le_length [of b n] by auto
    then show ?thesis by (simp add: bit_ucast_iff)
  qed
  have "push_bit 8 (ucast a :: 32 word) OR ucast b = push_bit 8 (ucast a) + ucast b"
    by (rule disjunctive_add [symmetric]) (rule disj)
  also have "\<dots> = of_nat (256 * unat a + unat b)"
    by (simp add: push_bit_eq_mult)
  finally show ?thesis .
qed

lemma hi_byte_word: "(push_bit 8 (ucast (a::byte)) :: 32 word) = of_nat (256 * unat a)"
  by (simp add: push_bit_eq_mult)

lemma sum_loop_words:
  "even i \<Longrightarrow> i \<le> length b \<Longrightarrow>
   sum_loop b i s + odd_tail b = s + of_nat (sum_list (be_words (drop i b)))"
proof (induction b i s rule: sum_loop.induct)
  case (1 b i s)
  note ev = \<open>even i\<close> and le = \<open>i \<le> length b\<close>
  show ?case
  proof (cases "int i < int (length b) - 1")
    case True
    then have lt: "i + 1 < length b" by linarith
    have "drop i b = b ! i # drop (Suc i) b"
      using lt by (simp add: Cons_nth_drop_Suc)
    also have "drop (Suc i) b = b ! Suc i # drop (Suc (Suc i)) b"
      using lt by (simp add: Cons_nth_drop_Suc)
    finally have d: "drop i b = b ! i # b ! (i + 1) # drop (i + 2) b" by simp
    have "sum_loop b i s + odd_tail b =
          sum_loop b (i + 2) (s + (push_bit 8 (ucast (b ! i)) OR ucast (b ! (i + 1)))) + odd_tail b"
      using True by (subst sum_loop.simps) simp
    also have "\<dots> = (s + (push_bit 8 (ucast (b ! i)) OR ucast (b ! (i + 1))))
                    + of_nat (sum_list (be_words (drop (i + 2) b)))"
      using "1.IH" [OF True] ev lt by simp
    also have "\<dots> = s + of_nat (sum_list (be_words (drop i b)))"
      unfolding d be16_word by simp
    finally show ?thesis .
  next
    case False
    then have stop: "sum_loop b i s = s" by (subst sum_loop.simps) simp
    from False le consider (full) "i = length b" | (last) "i + 1 = length b" by linarith
    then show ?thesis
    proof cases
      case full
      then have "odd_tail b = 0" using ev by (simp add: odd_tail_def)
      then show ?thesis using full stop by simp
    next
      case last
      then have o: "odd (length b)" using ev by (metis even_plus_one_iff)
      have "i < length b" using last by simp
      then have "drop i b = b ! i # drop (Suc i) b"
        by (rule Cons_nth_drop_Suc [symmetric])
      also have "drop (Suc i) b = []" using last by simp
      finally have d: "drop i b = [b ! i]" .
      have i: "i = length b - 1" using last by simp
      have "odd_tail b = push_bit 8 (ucast (b ! i))"
        unfolding i using o by (simp add: odd_tail_def odd_iff_mod_2_eq_one)
      then show ?thesis unfolding d stop hi_byte_word by simp
    qed
  qed
qed

lemma Checksum_words:
  "Checksum b = NOT (ucast (fold_loop (of_nat (sum_list (be_words b)))))"
proof -
  have "sum_loop b 0 0 + odd_tail b = of_nat (sum_list (be_words b))"
    using sum_loop_words [of 0 b 0] by simp
  then have "(if length b mod 2 \<noteq> 0
               then sum_loop b 0 0 + push_bit 8 (ucast (b ! (length b - 1)))
               else sum_loop b 0 0) = of_nat (sum_list (be_words b))"
    by (simp add: odd_tail_def split: if_splits)
  then show ?thesis
    unfolding Checksum_def Let_def by (simp only:)
qed


lemma fold_loop_carries: "unat (fold_loop w) = fold_carries (unat w)"
proof (induction w rule: fold_loop.induct)
  case (1 s)
  show ?case
  proof (cases "drop_bit 16 s \<noteq> 0")
    case True
    then have "unat (drop_bit 16 s) \<noteq> 0" unfolding unat_eq_0 .
    then have q: "unat s div 65536 \<noteq> 0" unfolding drop16 .
    have "unat s mod 65536 + unat s div 65536 < 2 ^ 32"
    proof -
      have "unat s < 2 ^ 32" using unsigned_less [of s] by simp
      then have "unat s div 65536 < 65536" by simp
      moreover have "unat s mod 65536 < 65536" by simp
      ultimately show ?thesis by simp
    qed
    then have "unat (s AND 0xffff) + unat (drop_bit 16 s) < 2 ^ LENGTH(32)"
      unfolding and_mask16 drop16 by simp
    then have "unat ((s AND 0xffff) + drop_bit 16 s) = unat (s AND 0xffff) + unat (drop_bit 16 s)"
      by (simp only: unat_add_lem [THEN iffD1])
    then have step: "unat ((s AND 0xffff) + drop_bit 16 s) = unat s mod 65536 + unat s div 65536"
      unfolding and_mask16 drop16 .
    have "unat (fold_loop s) = unat (fold_loop ((s AND 0xffff) + drop_bit 16 s))"
      using True by (subst fold_loop.simps) simp
    also have "\<dots> = fold_carries (unat s mod 65536 + unat s div 65536)"
      using "1.IH" [OF True] step by simp
    also have "\<dots> = fold_carries (unat s)"
      using q by (subst (2) fold_carries.simps) simp
    finally show ?thesis .
  next
    case False
    then have "unat (drop_bit 16 s) = 0" by simp
    then have q: "unat s div 65536 = 0" unfolding drop16 .
    have "unat (fold_loop s) = unat s"
      using False by (subst fold_loop.simps) simp
    also have "\<dots> = fold_carries (unat s)"
      using q by (subst fold_carries.simps) simp
    finally show ?thesis .
  qed
qed

lemma fold_carries_closed:
  "fold_carries n = (if n = 0 then 0 else (n - 1) mod 65535 + 1)"
proof (induction n rule: fold_carries.induct)
  case (1 s)
  show ?case
  proof (cases "s div 65536 \<noteq> 0")
    case True
    define q r where "q = s div 65536" and "r = s mod 65536"
    have s: "s = 65536 * q + r" by (simp add: q_def r_def)
    have q: "q \<noteq> 0" using True by (simp add: q_def)
    have "fold_carries s = fold_carries (r + q)"
      using True by (subst fold_carries.simps) (simp add: q_def r_def)
    also have "\<dots> = (r + q - 1) mod 65535 + 1"
      using "1.IH" [OF True] q by (simp add: q_def r_def)
    also have "(r + q - 1) mod 65535 = (r + q - 1 + q * 65535) mod 65535"
      by simp
    also have "r + q - 1 + q * 65535 = s - 1" using s q by linarith
    finally show ?thesis using s q by simp
  next
    case False
    then have lt: "s < 65536" by (simp add: div_eq_0_iff)
    have "fold_carries s = s" using False by (subst fold_carries.simps) simp
    moreover have "s \<noteq> 0 \<Longrightarrow> (s - 1) mod 65535 + 1 = s" using lt by simp
    ultimately show ?thesis by simp
  qed
qed


lemma byte_le: "unat (x :: byte) \<le> 255"
  using unsigned_less [of x, where 'a = nat] by simp

lemma be_words_bound: "sum_list (be_words b) \<le> 65535 * ((length b + 1) div 2)"
proof (induction b rule: be_words.induct)
  case (1 hi lo rest)
  have "256 * unat hi + unat lo \<le> 65535" using byte_le [of hi] byte_le [of lo] by linarith
  then show ?case using 1 by simp
next
  case (2 hi)
  show ?case using byte_le [of hi] by simp
next
  case 3
  show ?case by simp
qed

lemma Checksum_nat:
  "Checksum b = NOT (of_nat (fold_carries (sum_list (be_words b) mod 2 ^ 32)))"
proof -
  have "(ucast (fold_loop (of_nat (sum_list (be_words b)))) :: 16 word)
        = of_nat (unat (fold_loop (of_nat (sum_list (be_words b)))))"
    by simp
  also have "\<dots> = of_nat (fold_carries (sum_list (be_words b) mod 2 ^ 32))"
    unfolding fold_loop_carries unat_of_nat by simp
  finally show ?thesis unfolding Checksum_words by simp
qed

lemma be_words_replicate: "be_words (replicate (2 * n) x) = replicate n (257 * unat x)"
  by (induction n) simp_all

lemma fold_carries_le: "fold_carries n \<le> 65535"
proof -
  have "(n - 1) mod 65535 < 65535" by simp
  then have "(n - 1) mod 65535 + 1 \<le> 65535" by linarith
  then show ?thesis unfolding fold_carries_closed by simp
qed

lemma unat_not16: "n \<le> 65535 \<Longrightarrow> unat (NOT (of_nat n :: 16 word)) = 65535 - n"
proof -
  assume n: "n \<le> 65535"
  have "(of_nat (65535 - n) :: 16 word) = of_nat 65535 - of_nat n"
    using n by (rule of_nat_diff)
  also have "\<dots> = NOT (of_nat n)" by (simp add: not_eq_complement)
  finally have e: "NOT (of_nat n :: 16 word) = of_nat (65535 - n)" by simp
  have "65535 - n < 2 ^ LENGTH(16)" by simp
  then show ?thesis unfolding e unat_of_nat by (rule mod_less)
qed

lemma be_words_update:
  "2 * k + 1 < length b \<Longrightarrow> b ! (2 * k) = 0 \<Longrightarrow> b ! (2 * k + 1) = 0 \<Longrightarrow>
   sum_list (be_words (b[2 * k := h, 2 * k + 1 := l])) = sum_list (be_words b) + (256 * unat h + unat l)"
proof (induction k arbitrary: b)
  case 0
  then obtain x y r where b: "b = x # y # r"
    by (cases b; cases "tl b") auto
  then show ?case using 0 by simp
next
  case (Suc k)
  then obtain x y r where b: "b = x # y # r"
    by (cases b; cases "tl b") auto
  have "sum_list (be_words (r[2 * k := h, 2 * k + 1 := l])) = sum_list (be_words r) + (256 * unat h + unat l)"
    using Suc.prems b by (intro Suc.IH) simp_all
  then show ?case using b by simp
qed

lemma split16: "256 * unat (ucast (drop_bit 8 (c :: 16 word)) :: byte) + unat (ucast c :: byte) = unat c"
proof -
  have lt: "unat c < 65536" using unsigned_less [of c, where 'a = nat] by simp
  have lo: "unat (ucast c :: byte) = unat c mod 256"
    by (simp add: unsigned_ucast_eq take_bit_eq_mod)
  have "unat (ucast (drop_bit 8 c) :: byte) = unat (drop_bit 8 c) mod 256"
    by (subst unsigned_ucast_eq) (simp add: take_bit_eq_mod)
  also have "unat (drop_bit 8 c) = unat c div 256"
    by (subst unat_drop_bit_eq) (simp add: drop_bit_eq_div)
  also have "unat c div 256 mod 256 = unat c div 256" using lt by simp
  finally show ?thesis unfolding lo by simp
qed


lemma known_vector: "Checksum (bytes_of_words rfc1071_vector) = 0xb861"
  unfolding Checksum_nat
  by (simp add: bytes_of_words_def rfc1071_vector_def fold_carries_closed)

lemma Checksum_short:
  assumes "length b \<le> 131074"
  shows "Checksum b = rfc1071 b"
proof -
  have "(length b + 1) div 2 \<le> 65537" using assms by simp
  then have "65535 * ((length b + 1) div 2) \<le> 65535 * 65537" by (rule mult_le_mono2)
  then have "sum_list (be_words b) < 2 ^ 32" using be_words_bound [of b] by simp
  then have "sum_list (be_words b) mod 2 ^ 32 = sum_list (be_words b)" by (rule mod_less)
  then show ?thesis unfolding Checksum_nat rfc1071_def by (simp only:)
qed

text \<open>Claim C2, as the code has it. For every input of at most 131074 bytes \<open>Checksum\<close>
  is the RFC 1071 checksum: the complement of the folded sum of the successive big-endian
  16-bit words, a trailing odd byte being the high byte of a zero-padded word. For every
  input, whatever its length, the sum of the words is taken modulo \<open>2 ^ 32\<close> (the
  \<open>uint32\<close> accumulator) before it is folded. On the bytes of the ten words of the worked
  example the result is \<open>0xb861\<close>.\<close>

theorem Checksum_rfc1071:
  "(length b \<le> 131074 \<longrightarrow> Checksum b = rfc1071 b)
   \<and> Checksum b = NOT (of_nat (fold_carries (sum_list (be_words b) mod 2 ^ 32)))
   \<and> Checksum (bytes_of_words rfc1071_vector) = 0xb861"
  using Checksum_short [of b] Checksum_nat [of b] known_vector by blast

theorem Checksum_rfc1071_witness:
  "length [0x08, 0x00, 0x00, 0x00, 0x12, 0x34, 0x00, 0x01, 0x61 :: byte] \<le> 131074
   \<and> Checksum [0x08, 0x00, 0x00, 0x00, 0x12, 0x34, 0x00, 0x01, 0x61]
     = rfc1071 [0x08, 0x00, 0x00, 0x00, 0x12, 0x34, 0x00, 0x01, 0x61]
   \<and> rfc1071 [0x08, 0x00, 0x00, 0x00, 0x12, 0x34, 0x00, 0x01, 0x61] = 0x84ca"
  using Checksum_rfc1071 [of "[0x08, 0x00, 0x00, 0x00, 0x12, 0x34, 0x00, 0x01, 0x61]"]
  by (simp add: rfc1071_def fold_carries_closed)

text \<open>Claim C2 as stated fails on long inputs: on 131076 bytes \<open>0xff\<close> the 65538 words
  sum to \<open>65538 * 65535 = 2 ^ 32 + 65534\<close>, the accumulator wraps to \<open>65534\<close>, and
  \<open>Checksum\<close> returns 1 where the RFC 1071 checksum is 0.\<close>

theorem Checksum_rfc1071_counterexample:
  "Checksum long_input = 1 \<and> rfc1071 long_input = 0 \<and> Checksum long_input \<noteq> rfc1071 long_input"
proof -
  have "be_words long_input = replicate 65538 (257 * unat (0xff :: byte))"
    using be_words_replicate [of 65538 "0xff"] by (simp add: long_input_def)
  then have w: "sum_list (be_words long_input) = 65538 * 65535"
    by (simp add: sum_list_replicate)
  have c: "Checksum long_input = 1"
    unfolding Checksum_nat w by (simp add: fold_carries_closed)
  have r: "rfc1071 long_input = 0"
    unfolding rfc1071_def w by (simp add: fold_carries_closed)
  show ?thesis unfolding c r by simp
qed

lemma round_trip_arith:
  assumes "s < 2 ^ 32" and "c = 65535 - fold_carries s"
  shows "s + c < 2 ^ 32 \<and> fold_carries (s + c) = 65535"
proof (cases "s = 0")
    case True
    then have "s + c = 65535" using assms by (simp add: fold_carries_closed)
    then show ?thesis
      by (simp add: fold_carries_closed)
  next
    case False
    define d m where "d = (s - 1) div 65535" and "m = (s - 1) mod 65535"
    have s: "s - 1 = 65535 * d + m" by (simp add: d_def m_def)
    have m: "m < 65535" by (simp add: m_def)
    have f: "fold_carries s = m + 1" using False by (simp add: fold_carries_closed m_def)
    have s1: "s = 65535 * d + m + 1" using s False by simp
    have c1: "c = 65534 - m" using f assms(2) by simp
    have sc: "s + c = 65535 * (d + 1)" using s1 c1 m by simp
    have "d \<le> 65536" using s1 assms(1) by simp
    then have lt: "s + c < 2 ^ 32" unfolding sc by simp
    have "(65535 * (d + 1) - 1) = 65535 * d + 65534" by simp
    then have "(65535 * (d + 1) - 1) mod 65535 = 65534" by simp
    then have "fold_carries (s + c) = 65535" unfolding sc fold_carries_closed by simp
    with lt show ?thesis ..
qed

text \<open>Claim C8. For every byte sequence whose 16-bit checksum field, at any even offset
  \<open>2 * k\<close> inside the sequence, is zero: computing \<open>Checksum\<close>, storing the result in the
  field and computing \<open>Checksum\<close> over the whole message gives zero. (The ICMP checksum
  field is at offset 2, \<open>k = 1\<close>.)\<close>

theorem Checksum_round_trip:
  assumes "2 * k + 1 < length b" and "b ! (2 * k) = 0" and "b ! (2 * k + 1) = 0"
  shows "Checksum (PutUint16 b (2 * k) (Checksum b)) = 0"
proof -
  define w where "w = sum_list (be_words b)"
  define s where "s = w mod 2 ^ 32"
  define c where "c = 65535 - fold_carries s"
  have s: "s < 2 ^ 32" by (simp add: s_def)
  have cs: "Checksum b = NOT (of_nat (fold_carries s))"
    unfolding s_def w_def by (rule Checksum_nat)
  have uc: "unat (Checksum b) = c"
    unfolding cs c_def using fold_carries_le by (rule unat_not16)
  have "sum_list (be_words (PutUint16 b (2 * k) (Checksum b))) = w + c"
    unfolding PutUint16_def w_def using assms
    by (simp only: be_words_update split16 uc)
  then have "Checksum (PutUint16 b (2 * k) (Checksum b))
             = NOT (of_nat (fold_carries ((w + c) mod 2 ^ 32)))"
    by (simp only: Checksum_nat)
  also have "(w + c) mod 2 ^ 32 = (s + c) mod 2 ^ 32"
    unfolding s_def by (simp add: mod_add_left_eq)
  also have "\<dots> = s + c" using round_trip_arith [OF s c_def] by simp
  also have "fold_carries (s + c) = 65535" using round_trip_arith [OF s c_def] by simp
  finally show ?thesis by simp
qed

theorem Checksum_round_trip_witness:
  "2 * 1 + 1 < length [0x08, 0x00, 0x00, 0x00, 0x12, 0x34, 0x00, 0x01, 0x61 :: byte]
   \<and> [0x08, 0x00, 0x00, 0x00, 0x12, 0x34, 0x00, 0x01, 0x61 :: byte] ! (2 * 1) = 0
   \<and> [0x08, 0x00, 0x00, 0x00, 0x12, 0x34, 0x00, 0x01, 0x61 :: byte] ! (2 * 1 + 1) = 0
   \<and> PutUint16 [0x08, 0x00, 0x00, 0x00, 0x12, 0x34, 0x00, 0x01, 0x61] (2 * 1) 0x84ca
       = [0x08, 0x00, 0x84, 0xca, 0x12, 0x34, 0x00, 0x01, 0x61]
   \<and> Checksum (PutUint16 [0x08, 0x00, 0x00, 0x00, 0x12, 0x34, 0x00, 0x01, 0x61] (2 * 1)
        (Checksum [0x08, 0x00, 0x00, 0x00, 0x12, 0x34, 0x00, 0x01, 0x61])) = 0"
  using Checksum_round_trip [of 1 "[0x08, 0x00, 0x00, 0x00, 0x12, 0x34, 0x00, 0x01, 0x61]"]
  by (simp add: PutUint16_def)

section \<open>The receive loop and one probe\<close>

lemma loop_body:
  "(case ParseMessage lib (if isIPv6 p then ProtocolICMPv6 else ProtocolICMP) (take 1500 d) of
      Inl err \<Rightarrow> nxt
    | Inr msg \<Rightarrow>
        if Type msg \<noteq> (if isIPv6 p then ICMPv6TypeEchoReply else ICMPTypeEchoReply) then nxt
        else (case Body msg of
                OtherBody \<Rightarrow> nxt
              | EchoBody echo \<Rightarrow>
                  if ID echo \<noteq> ident p \<or> EchoSeq echo \<noteq> seq then nxt else Some res))
   = (if accepts lib p seq d then Some res else nxt)"
  by (cases "isIPv6 p") (auto simp: accepts_def split: sum.splits message_body.splits)

lemma recv_loop_unfold:
  "recv_loop lib p seq rd i =
     (case rd i of
        ReadError err \<Rightarrow> Some (\<lparr>Seq = seq, RTT = 0, Received = False, Error = None\<rparr>, p)
      | Datagram d t \<Rightarrow>
          if accepts lib p seq d
          then Some (\<lparr>Seq = seq, RTT = t, Received = True, Error = None\<rparr>,
                     p\<lparr>received := received p + 1, rtts := rtts p @ [t]\<rparr>)
          else recv_loop lib p seq rd (i + 1))"
  by (subst recv_loop.simps) (simp only: loop_body)

lemma recv_loop_error:
  "rd i = ReadError e \<Longrightarrow>
   recv_loop lib p seq rd i = Some (\<lparr>Seq = seq, RTT = 0, Received = False, Error = None\<rparr>, p)"
  by (subst recv_loop_unfold) simp

lemma recv_loop_accept:
  "rd i = Datagram d t \<Longrightarrow> accepts lib p seq d \<Longrightarrow>
   recv_loop lib p seq rd i =
     Some (\<lparr>Seq = seq, RTT = t, Received = True, Error = None\<rparr>,
           p\<lparr>received := received p + 1, rtts := rtts p @ [t]\<rparr>)"
  by (subst recv_loop_unfold) simp

lemma recv_loop_discard:
  "rd i = Datagram d t \<Longrightarrow> \<not> accepts lib p seq d \<Longrightarrow>
   recv_loop lib p seq rd i = recv_loop lib p seq rd (i + 1)"
  by (subst recv_loop_unfold) simp

lemma accepts_iff:
  "accepts lib p seq d \<longleftrightarrow>
     (\<exists>msg echo.
        ParseMessage lib (if isIPv6 p then ProtocolICMPv6 else ProtocolICMP) (take 1500 d) = Inr msg
        \<and> Type msg = (if isIPv6 p then ICMPv6TypeEchoReply else ICMPTypeEchoReply)
        \<and> Body msg = EchoBody echo \<and> ID echo = ident p \<and> EchoSeq echo = seq)"
  by (auto simp: accepts_def split: sum.splits message_body.splits)

lemma ends_at_extend:
  assumes "rd i = Datagram d t" "\<not> accepts lib p seq d" "ends_at lib p seq rd (i + 1) k y"
  shows "ends_at lib p seq rd i k y"
proof -
  have "\<exists>d t. rd j = Datagram d t \<and> \<not> accepts lib p seq d" if "i \<le> j" "j < k" for j
  proof (cases "j = i")
    case True
    then show ?thesis using assms(1,2) by simp
  next
    case False
    then have "i + 1 \<le> j" using that by simp
    then show ?thesis using assms(3) that unfolding ends_at_def by blast
  qed
  moreover have "i \<le> k" using assms(3) unfolding ends_at_def by simp
  ultimately show ?thesis using assms(3) unfolding ends_at_def by blast
qed

lemma recv_loop_Some:
  assumes "recv_loop lib p seq rd i = Some y"
  shows "\<exists>k. ends_at lib p seq rd i k y"
  using assms
proof (induction lib p seq rd i y
       rule: recv_loop.raw_induct [rotated, consumes 1, case_names body])
  case (body f lib p seq rd i y)
  note IH = body(1) and eq = body(2)
  show ?case
  proof (cases "rd i")
    case (ReadError e)
    then have "y = (\<lparr>Seq = seq, RTT = 0, Received = False, Error = None\<rparr>, p)"
      using eq by simp
    then have "ends_at lib p seq rd i i y" using ReadError unfolding ends_at_def by auto
    then show ?thesis ..
  next
    case (Datagram d t)
    show ?thesis
    proof (cases "accepts lib p seq d")
      case True
      then have "y = (\<lparr>Seq = seq, RTT = t, Received = True, Error = None\<rparr>,
                      p\<lparr>received := received p + 1, rtts := rtts p @ [t]\<rparr>)"
        using eq Datagram unfolding loop_body by simp
      then have "ends_at lib p seq rd i i y" using Datagram True unfolding ends_at_def by auto
      then show ?thesis ..
    next
      case False
      then have "f lib p seq rd (i + 1) = Some y"
        using eq Datagram unfolding loop_body by simp
      then obtain k where "ends_at lib p seq rd (i + 1) k y" using IH by blast
      with Datagram False have "ends_at lib p seq rd i k y" by (rule ends_at_extend)
      then show ?thesis ..
    qed
  qed
qed

lemma recv_loop_skip:
  "i \<le> k \<Longrightarrow> (\<forall>j. i \<le> j \<and> j < k \<longrightarrow> (\<exists>d t. rd j = Datagram d t \<and> \<not> accepts lib p seq d)) \<Longrightarrow>
   recv_loop lib p seq rd i = recv_loop lib p seq rd k"
proof (induction k rule: dec_induct)
  case base
  show ?case ..
next
  case (step n)
  then obtain d t where "rd n = Datagram d t" "\<not> accepts lib p seq d" by auto
  then have "recv_loop lib p seq rd n = recv_loop lib p seq rd (Suc n)"
    using recv_loop_discard [of rd n d t lib p seq] by simp
  moreover have "recv_loop lib p seq rd i = recv_loop lib p seq rd n"
    using step by auto
  ultimately show ?case by simp
qed


lemma SendPing_untransmitted:
  "\<not> transmitted lib env p seq \<Longrightarrow>
   \<exists>out. SendPing lib env p seq = Some (out, p)
        \<and> (\<forall>r. out = Returns r \<longrightarrow> Seq r = seq \<and> RTT r = 0 \<and> \<not> Received r \<and> Error r \<noteq> None)"
  by (auto simp: transmitted_def SendPing_def split: option.splits outcome.splits sum.splits)

lemma SendPing_transmitted:
  "transmitted lib env p seq \<Longrightarrow>
   SendPing lib env p seq =
     map_option (\<lambda>(r, p'). (Returns r, p'))
       (recv_loop lib (p\<lparr>sent := sent p + 1\<rparr>) seq (readFrom env) 0)"
  by (auto simp: transmitted_def SendPing_def split: option.splits outcome.splits sum.splits)

lemma accepts_sent [simp]: "accepts lib (p\<lparr>sent := n\<rparr>) seq d = accepts lib p seq d"
  by (simp add: accepts_iff)

lemma ends_at_none_accepted:
  "ends_at lib q seq rd 0 k y \<Longrightarrow> (\<And>d. accepts lib q seq d = accepts lib p seq d) \<Longrightarrow>
   none_accepted lib p seq rd k"
  unfolding ends_at_def none_accepted_def by fastforce

lemma SendPing_cases:
  assumes "SendPing lib env p seq = Some (out, p')"
  shows "(\<not> transmitted lib env p seq \<and> p' = p
            \<and> (\<forall>r. out = Returns r \<longrightarrow> Seq r = seq \<and> RTT r = 0 \<and> \<not> Received r \<and> Error r \<noteq> None))
         \<or> (transmitted lib env p seq
            \<and> (\<exists>k e. readFrom env k = ReadError e
                    \<and> none_accepted lib p seq (readFrom env) k
                    \<and> out = Returns \<lparr>Seq = seq, RTT = 0, Received = False, Error = None\<rparr>
                    \<and> p' = p\<lparr>sent := sent p + 1\<rparr>))
         \<or> (transmitted lib env p seq
            \<and> (\<exists>k d t. readFrom env k = Datagram d t \<and> accepts lib p seq d
                    \<and> none_accepted lib p seq (readFrom env) k
                    \<and> out = Returns \<lparr>Seq = seq, RTT = t, Received = True, Error = None\<rparr>
                    \<and> p' = p\<lparr>sent := sent p + 1, received := received p + 1,
                               rtts := rtts p @ [t]\<rparr>))"
proof (cases "transmitted lib env p seq")
  case False
  then show ?thesis using SendPing_untransmitted [OF False] assms by auto
next
  case True
  define q where "q = p\<lparr>sent := sent p + 1\<rparr>"
  have "map_option (\<lambda>(r, p'). (Returns r, p')) (recv_loop lib q seq (readFrom env) 0)
        = Some (out, p')"
    using SendPing_transmitted [OF True] assms by (simp add: q_def)
  then obtain r where r: "recv_loop lib q seq (readFrom env) 0 = Some (r, p')" "out = Returns r"
    by auto
  then obtain k where k: "ends_at lib q seq (readFrom env) 0 k (r, p')"
    using recv_loop_Some by blast
  have na: "none_accepted lib p seq (readFrom env) k"
    using k by (rule ends_at_none_accepted) (simp add: q_def)
  from k consider
      (timeout) e where "readFrom env k = ReadError e"
        "(r, p') = (\<lparr>Seq = seq, RTT = 0, Received = False, Error = None\<rparr>, q)"
    | (reply) d t where "readFrom env k = Datagram d t" "accepts lib q seq d"
        "(r, p') = (\<lparr>Seq = seq, RTT = t, Received = True, Error = None\<rparr>,
                    q\<lparr>received := received q + 1, rtts := rtts q @ [t]\<rparr>)"
    unfolding ends_at_def by blast
  then show ?thesis
  proof cases
    case timeout
    then show ?thesis using True na r(2) by (auto simp: q_def)
  next
    case reply
    then have "accepts lib p seq d" by (simp add: q_def)
    then show ?thesis using True na r(2) reply(1,3) by (auto simp: q_def)
  qed
qed

lemma SendPing_counters:
  assumes "SendPing lib env p seq = Some (Returns r, p')"
  shows "sent p' = sent p + (if Error r = None then 1 else 0)
         \<and> received p' = received p + (if Received r then 1 else 0)
         \<and> rtts p' = rtts p @ (if Received r then [RTT r] else [])
         \<and> (Received r \<longrightarrow> Error r = None)"
  using SendPing_cases [OF assms] by auto

lemma SendPing_invariant:
  assumes "SendPing lib env p seq = Some (out, p')"
    and "int (length (rtts p)) = received p \<and> received p \<le> sent p"
  shows "int (length (rtts p')) = received p' \<and> received p' \<le> sent p'"
  using SendPing_cases [OF assms(1)] assms(2) by auto

lemma SendPing_timeout_lemma:
  assumes "transmitted lib env p seq" and "readFrom env k = ReadError e"
    and "none_accepted lib p seq (readFrom env) k"
  shows "SendPing lib env p seq =
           Some (Returns \<lparr>Seq = seq, RTT = 0, Received = False, Error = None\<rparr>,
                 p\<lparr>sent := sent p + 1\<rparr>)"
proof -
  define q where "q = p\<lparr>sent := sent p + 1\<rparr>"
  define P where "P j \<longleftrightarrow> (\<exists>e. readFrom env j = ReadError e)" for j
  have "P k" using assms(2) by (auto simp: P_def)
  define m where "m = (LEAST j. P j)"
  have Pm: "P m" unfolding m_def using \<open>P k\<close> by (rule LeastI)
  have mk: "m \<le> k" unfolding m_def using \<open>P k\<close> by (rule Least_le)
  have before: "\<exists>d t. readFrom env j = Datagram d t \<and> \<not> accepts lib q seq d" if "j < m" for j
  proof -
    have "\<not> P j" using that not_less_Least unfolding m_def by blast
    then obtain d t where d: "readFrom env j = Datagram d t"
      unfolding P_def by (cases "readFrom env j") auto
    moreover have "j < k" using that mk by simp
    ultimately have "\<not> accepts lib p seq d"
      using assms(3) unfolding none_accepted_def by fastforce
    then show ?thesis using d by (simp add: q_def)
  qed
  have "recv_loop lib q seq (readFrom env) 0 = recv_loop lib q seq (readFrom env) m"
    by (rule recv_loop_skip) (use before in auto)
  also have "\<dots> = Some (\<lparr>Seq = seq, RTT = 0, Received = False, Error = None\<rparr>, q)"
    using Pm unfolding P_def by (auto intro: recv_loop_error)
  finally show ?thesis
    unfolding SendPing_transmitted [OF assms(1)] q_def by simp
qed

lemma SendPing_reply_lemma:
  assumes "transmitted lib env p seq" and "readFrom env k = Datagram d t"
    and "accepts lib p seq d"
    and "\<forall>j<k. \<exists>d' t'. readFrom env j = Datagram d' t' \<and> \<not> accepts lib p seq d'"
  shows "SendPing lib env p seq =
           Some (Returns \<lparr>Seq = seq, RTT = t, Received = True, Error = None\<rparr>,
                 p\<lparr>sent := sent p + 1, received := received p + 1, rtts := rtts p @ [t]\<rparr>)"
proof -
  define q where "q = p\<lparr>sent := sent p + 1\<rparr>"
  have "recv_loop lib q seq (readFrom env) 0 = recv_loop lib q seq (readFrom env) k"
    by (rule recv_loop_skip) (use assms(4) in \<open>auto simp: q_def\<close>)
  also have "\<dots> = Some (\<lparr>Seq = seq, RTT = t, Received = True, Error = None\<rparr>,
                         q\<lparr>received := received q + 1, rtts := rtts q @ [t]\<rparr>)"
    using assms(2,3) by (intro recv_loop_accept) (simp_all add: q_def)
  finally show ?thesis
    unfolding SendPing_transmitted [OF assms(1)] q_def by simp
qed

section \<open>Building the request, sending and receiving\<close>

lemma buildRequest_eq:
  "buildRequest lib clock p seq =
     (if PayloadSize p < 0 then Panics MakeSliceLenOutOfRange
      else if PayloadSize p < 8 then Panics SliceBoundsOutOfRange
      else Returns (Marshal lib (echo_request clock p seq)))"
proof -
  have "nat (PayloadSize p) < 8 \<longleftrightarrow> PayloadSize p < 8" by auto
  then show ?thesis
    by (simp add: buildRequest_def echo_request_def Let_def)
qed

lemma length_PutUint64: "length (PutUint64 v) = 8"
  by (simp add: PutUint64_def)

lemma spec_Marshal_echo_request:
  assumes "8 \<le> PayloadSize p" "0 \<le> ident p" "ident p \<le> 0xffff" "0 \<le> seq" "seq \<le> 0xffff"
  shows "\<exists>pkt. Marshal spec_lib (echo_request clock p seq) = Inr pkt
               \<and> int (length pkt) = 8 + PayloadSize p"
proof -
  have "int (length (PutUint64 clock @ replicate (nat (PayloadSize p) - 8) (0 :: byte))) = PayloadSize p"
    using assms(1) by (simp add: length_PutUint64)
  then show ?thesis
    using assms
    by (cases "isIPv6 p")
       (simp_all add: spec_lib_def spec_Marshal_def echo_request_def Let_def be16_def PutUint16_def
          ICMPv6TypeEchoRequest_def ICMPTypeEcho_def length_PutUint64)
qed

lemma spec_lib_transmitted:
  assumes "listen env = None" "writeTo env = None"
    "8 \<le> PayloadSize p" "0 \<le> ident p" "ident p \<le> 0xffff" "0 \<le> seq" "seq \<le> 0xffff"
  shows "transmitted spec_lib env p seq"
proof -
  obtain pkt where "Marshal spec_lib (echo_request (now env) p seq) = Inr pkt"
    using spec_Marshal_echo_request [OF assms(3-7)] by blast
  then show ?thesis
    using assms(1-3) by (simp add: transmitted_def buildRequest_eq)
qed


lemma SendPing_write_fails:
  "listen env = None \<Longrightarrow> buildRequest lib (now env) p seq = Returns (Inr data) \<Longrightarrow>
   writeTo env = Some e \<Longrightarrow>
   SendPing lib env p seq =
     Some (Returns \<lparr>Seq = seq, RTT = 0, Received = False, Error = Some (WriteError e)\<rparr>, p)"
  by (simp add: SendPing_def)

lemma SendPing_listen_fails:
  "listen env = Some e \<Longrightarrow>
   SendPing lib env p seq =
     Some (Returns \<lparr>Seq = seq, RTT = 0, Received = False, Error = Some (ListenError e)\<rparr>, p)"
  by (simp add: SendPing_def)

lemma pinger0_eq:
  "pinger0 = \<lparr>Host = ''localhost'', Count = 4, Interval = 1000000000, Timeout = 3000000000,
      PayloadSize = 56, Verbose = False, ident = 4464, isIPv6 = False,
      addr = Some [127, 0, 0, 1], network = ''ip4:icmp'', sent = 0, received = 0, rtts = []\<rparr>"
  by (simp add: pinger0_def Resolve_def NewPinger_def spec_lib_def go_To4_def
      DefaultTimeout_def DefaultPayloadSize_def)



text \<open>Claim C3 at payload sizes 4 and 0, with an identifier (4464) and a sequence number
  (1) that fit in 16 bits: \<open>buildRequest\<close> does not return a packet, it panics in
  \<open>payload[:8]\<close>.\<close>

theorem buildRequest_payload_below_8:
  "0 \<le> PayloadSize (pinger0\<lparr>PayloadSize := 4\<rparr>)
   \<and> 0 \<le> ident (pinger0\<lparr>PayloadSize := 4\<rparr>) \<and> ident (pinger0\<lparr>PayloadSize := 4\<rparr>) \<le> 0xffff
   \<and> buildRequest spec_lib (now env_reply) (pinger0\<lparr>PayloadSize := 4\<rparr>) 1
       = Panics SliceBoundsOutOfRange
   \<and> buildRequest spec_lib (now env_reply) (pinger0\<lparr>PayloadSize := 0\<rparr>) 1
       = Panics SliceBoundsOutOfRange"
  by (simp add: buildRequest_eq pinger0_eq)

text \<open>Claim C1, as the code has it. A call of \<open>SendPing\<close> that returns or panics adds
  one to the sent counter exactly when the request was transmitted (the socket opened, the
  packet was built and the write returned no error). In every other case the session is
  left untouched, sent counter included, and a returned result carries an error and is not
  received; in particular a write failure yields the result with the write error and the
  unchanged session.\<close>

theorem SendPing_sent_counter:
  "(SendPing lib env p seq = Some (out, p') \<longrightarrow>
      sent p' = sent p + (if transmitted lib env p seq then 1 else 0)
      \<and> (\<not> transmitted lib env p seq \<longrightarrow>
           p' = p \<and> (\<forall>r. out = Returns r \<longrightarrow> Error r \<noteq> None \<and> \<not> Received r)))
   \<and> (listen env = None \<and> buildRequest lib (now env) p seq = Returns (Inr data)
        \<and> writeTo env = Some e \<longrightarrow>
          SendPing lib env p seq =
            Some (Returns \<lparr>Seq = seq, RTT = 0, Received = False, Error = Some (WriteError e)\<rparr>, p))"
proof -
  have "sent p' = sent p + (if transmitted lib env p seq then 1 else 0)
      \<and> (\<not> transmitted lib env p seq \<longrightarrow>
           p' = p \<and> (\<forall>r. out = Returns r \<longrightarrow> Error r \<noteq> None \<and> \<not> Received r))"
    if "SendPing lib env p seq = Some (out, p')"
    using SendPing_cases [OF that] by auto
  then show ?thesis using SendPing_write_fails [of env lib p seq data e] by blast
qed

lemma accepts_spec_lib:
  assumes "ident p = 4464" "\<not> isIPv6 p"
  shows "accepts spec_lib p 1 reply_1" "\<not> accepts spec_lib p 1 reply_2"
    "\<not> accepts spec_lib p 1 foreign_reply_1" "\<not> accepts spec_lib p seq short_datagram"
    "accepts spec_lib p 2 reply_2"
  using assms
  by (simp_all add: accepts_def spec_lib_def spec_ParseMessage_def reply_1_def reply_2_def
      foreign_reply_1_def short_datagram_def ProtocolICMP_def ProtocolICMPv6_def
      ICMPTypeEcho_def ICMPTypeEchoReply_def ICMPv6TypeEchoRequest_def ICMPv6TypeEchoReply_def)

lemma less_3_cases: "j < (3 :: nat) \<Longrightarrow> j = 0 \<or> j = 1 \<or> j = 2"
  by auto

lemma none_accepted_reads_reply:
  assumes "ident p = 4464" "\<not> isIPv6 p"
  shows "none_accepted spec_lib p 1 reads_reply 3"
  unfolding none_accepted_def
proof (intro allI impI)
  fix j :: nat
  assume "j < 3"
  then consider "j = 0" | "j = 1" | "j = 2" using less_3_cases by blast
  then show "case reads_reply j of ReadError err \<Rightarrow> True
             | Datagram d rtt \<Rightarrow> \<not> accepts spec_lib p 1 d"
    by cases (simp_all add: reads_reply_def accepts_spec_lib [OF assms])
qed

lemma SendPing_env_reply:
  assumes "ident p = 4464" "\<not> isIPv6 p" "8 \<le> PayloadSize p"
  shows "SendPing spec_lib env_reply p 1 =
           Some (Returns \<lparr>Seq = 1, RTT = 2000000, Received = True, Error = None\<rparr>,
                 p\<lparr>sent := sent p + 1, received := received p + 1,
                   rtts := rtts p @ [2000000]\<rparr>)"
proof (rule SendPing_reply_lemma [where k = 3 and d = reply_1])
  show "transmitted spec_lib env_reply p 1"
    using assms by (intro spec_lib_transmitted) (simp_all add: env_reply_def)
  show "readFrom env_reply 3 = Datagram reply_1 2000000"
    by (simp add: env_reply_def reads_reply_def)
  show "accepts spec_lib p 1 reply_1" using assms by (simp add: accepts_spec_lib)
  show "\<forall>j<3. \<exists>d' t'. readFrom env_reply j = Datagram d' t' \<and> \<not> accepts spec_lib p 1 d'"
  proof (intro allI impI)
    fix j :: nat
    assume "j < 3"
    then consider "j = 0" | "j = 1" | "j = 2" using less_3_cases by blast
    then show "\<exists>d' t'. readFrom env_reply j = Datagram d' t' \<and> \<not> accepts spec_lib p 1 d'"
      by cases (simp_all add: env_reply_def reads_reply_def accepts_spec_lib [OF assms(1,2)])
  qed
qed

lemma SendPing_env_timeout:
  assumes "0 \<le> ident p" "ident p \<le> 0xffff" "8 \<le> PayloadSize p" "0 \<le> seq" "seq \<le> 0xffff"
  shows "SendPing spec_lib env_timeout p seq =
           Some (Returns \<lparr>Seq = seq, RTT = 0, Received = False, Error = None\<rparr>,
                 p\<lparr>sent := sent p + 1\<rparr>)"
proof (rule SendPing_timeout_lemma [where k = 0])
  show "transmitted spec_lib env_timeout p seq"
    using assms by (intro spec_lib_transmitted) (simp_all add: env_timeout_def)
  show "readFrom env_timeout 0 = ReadError (SysError ''i/o timeout'')"
    by (simp add: env_timeout_def reads_timeout_def)
  show "none_accepted spec_lib p seq (readFrom env_timeout) 0"
    by (simp add: none_accepted_def)
qed

lemma SendPing_env_write_fails:
  assumes "0 \<le> ident p" "ident p \<le> 0xffff" "8 \<le> PayloadSize p" "0 \<le> seq" "seq \<le> 0xffff"
  shows "SendPing spec_lib env_write_fails p seq =
           Some (Returns \<lparr>Seq = seq, RTT = 0, Received = False,
                          Error = Some (WriteError (SysError ''sendto: network is unreachable''))\<rparr>, p)"
proof -
  obtain pkt where "Marshal spec_lib (echo_request (now env_write_fails) p seq) = Inr pkt"
    using spec_Marshal_echo_request [OF assms(3,1,2,4,5)] by blast
  then have "buildRequest spec_lib (now env_write_fails) p seq = Returns (Inr pkt)"
    using assms(3) by (simp add: buildRequest_eq)
  then show ?thesis
    by (intro SendPing_write_fails) (simp_all add: env_write_fails_def)
qed

lemma not_transmitted_write_fails: "\<not> transmitted lib env_write_fails p seq"
  by (simp add: transmitted_def env_write_fails_def)

theorem SendPing_sent_counter_witness:
  "SendPing spec_lib env_reply pinger0 1 =
     Some (Returns \<lparr>Seq = 1, RTT = 2000000, Received = True, Error = None\<rparr>,
           pinger0\<lparr>sent := 1, received := 1, rtts := [2000000]\<rparr>)
   \<and> transmitted spec_lib env_reply pinger0 1
   \<and> sent (pinger0\<lparr>sent := 1, received := 1, rtts := [2000000]\<rparr>) = sent pinger0 + 1
   \<and> SendPing spec_lib env_write_fails pinger0 1 =
       Some (Returns \<lparr>Seq = 1, RTT = 0, Received = False,
                      Error = Some (WriteError (SysError ''sendto: network is unreachable''))\<rparr>,
             pinger0)
   \<and> \<not> transmitted spec_lib env_write_fails pinger0 1"
proof -
  have e: "SendPing spec_lib env_reply pinger0 1 =
     Some (Returns \<lparr>Seq = 1, RTT = 2000000, Received = True, Error = None\<rparr>,
           pinger0\<lparr>sent := 1, received := 1, rtts := [2000000]\<rparr>)"
    using SendPing_env_reply [of pinger0] by (simp add: pinger0_eq)
  have w: "SendPing spec_lib env_write_fails pinger0 1 =
       Some (Returns \<lparr>Seq = 1, RTT = 0, Received = False,
                      Error = Some (WriteError (SysError ''sendto: network is unreachable''))\<rparr>,
             pinger0)"
    using SendPing_env_write_fails [of pinger0 1] by (simp add: pinger0_eq)
  have t: "transmitted spec_lib env_reply pinger0 1"
    by (intro spec_lib_transmitted) (simp_all add: env_reply_def pinger0_eq)
  show ?thesis
    using SendPing_sent_counter [of spec_lib env_reply pinger0 1
            "Returns \<lparr>Seq = 1, RTT = 2000000, Received = True, Error = None\<rparr>"
            "pinger0\<lparr>sent := 1, received := 1, rtts := [2000000]\<rparr>"]
          e w t not_transmitted_write_fails [of spec_lib pinger0 1]
    by simp
qed

text \<open>Claim C1 as stated fails: after a call whose write fails, and after a call whose
  socket cannot be opened, the sent counter of the session is still 0.\<close>

theorem SendPing_sent_counter_counterexample:
  "SendPing spec_lib env_write_fails pinger0 1 =
     Some (Returns \<lparr>Seq = 1, RTT = 0, Received = False,
                    Error = Some (WriteError (SysError ''sendto: network is unreachable''))\<rparr>,
           pinger0)
   \<and> sent pinger0 = 0
   \<and> SendPing spec_lib env_listen_fails pinger0 1 =
     Some (Returns \<lparr>Seq = 1, RTT = 0, Received = False,
                    Error = Some (ListenError (SysError ''socket: operation not permitted''))\<rparr>,
           pinger0)"
proof -
  have "SendPing spec_lib env_write_fails pinger0 1 =
       Some (Returns \<lparr>Seq = 1, RTT = 0, Received = False,
                      Error = Some (WriteError (SysError ''sendto: network is unreachable''))\<rparr>,
             pinger0)"
    using SendPing_env_write_fails [of pinger0 1] by (simp add: pinger0_eq)
  moreover have "sent pinger0 = 0" by (simp add: pinger0_eq)
  moreover have "SendPing spec_lib env_listen_fails pinger0 1 =
     Some (Returns \<lparr>Seq = 1, RTT = 0, Received = False,
                    Error = Some (ListenError (SysError ''socket: operation not permitted''))\<rparr>,
           pinger0)"
    by (intro SendPing_listen_fails) (simp add: env_listen_fails_def)
  ultimately show ?thesis by blast
qed

text \<open>Claim C4. When \<open>SendPing\<close> returns \<open>Received = true\<close>, some read gave a datagram
  that is accepted (it parses, its type is the Echo Reply type of the session's family, its
  body is an echo with the session's identifier and the requested sequence number), the
  round-trip time of the result is the one taken at that read, and no datagram read before
  it was accepted. A datagram that is not accepted is discarded: the loop goes on with the
  next read. A reply with the right identifier and another sequence number, or the right
  sequence number and another identifier, is not accepted.\<close>

theorem SendPing_matches_only:
  "(SendPing lib env p seq = Some (Returns r, p') \<and> Received r \<longrightarrow>
      (\<exists>k d. readFrom env k = Datagram d (RTT r) \<and> accepts lib p seq d
             \<and> none_accepted lib p seq (readFrom env) k))
   \<and> (readFrom env i = Datagram d t \<and> \<not> accepts lib p seq d \<longrightarrow>
        recv_loop lib (p\<lparr>sent := sent p + 1\<rparr>) seq (readFrom env) i
        = recv_loop lib (p\<lparr>sent := sent p + 1\<rparr>) seq (readFrom env) (i + 1))
   \<and> (accepts lib p seq d \<longleftrightarrow>
        (\<exists>msg echo.
           ParseMessage lib (if isIPv6 p then ProtocolICMPv6 else ProtocolICMP) (take 1500 d) = Inr msg
           \<and> Type msg = (if isIPv6 p then ICMPv6TypeEchoReply else ICMPTypeEchoReply)
           \<and> Body msg = EchoBody echo \<and> ID echo = ident p \<and> EchoSeq echo = seq))"
proof -
  have a: "\<exists>k d. readFrom env k = Datagram d (RTT r) \<and> accepts lib p seq d
             \<and> none_accepted lib p seq (readFrom env) k"
    if sp: "SendPing lib env p seq = Some (Returns r, p')" and rc: "Received r"
  proof -
    obtain k0 d0 t0 where "readFrom env k0 = Datagram d0 t0" "accepts lib p seq d0"
      "none_accepted lib p seq (readFrom env) k0" "RTT r = t0"
      using SendPing_cases [OF sp] rc by auto
    then have "readFrom env k0 = Datagram d0 (RTT r) \<and> accepts lib p seq d0
             \<and> none_accepted lib p seq (readFrom env) k0" by simp
    then show ?thesis by blast
  qed
  have b: "recv_loop lib (p\<lparr>sent := sent p + 1\<rparr>) seq (readFrom env) i
        = recv_loop lib (p\<lparr>sent := sent p + 1\<rparr>) seq (readFrom env) (i + 1)"
    if "readFrom env i = Datagram d t" "\<not> accepts lib p seq d"
    using that by (intro recv_loop_discard) simp_all
  show ?thesis using a b accepts_iff [of lib p seq d] by blast
qed


theorem SendPing_matches_only_witness:
  "SendPing spec_lib env_reply pinger0 1 =
     Some (Returns \<lparr>Seq = 1, RTT = 2000000, Received = True, Error = None\<rparr>,
           pinger0\<lparr>sent := 1, received := 1, rtts := [2000000]\<rparr>)
   \<and> (\<exists>k d. readFrom env_reply k = Datagram d 2000000 \<and> accepts spec_lib pinger0 1 d
          \<and> none_accepted spec_lib pinger0 1 (readFrom env_reply) k)
   \<and> readFrom env_reply 1 = Datagram reply_2 900000
   \<and> \<not> accepts spec_lib pinger0 1 reply_2
   \<and> recv_loop spec_lib (pinger0\<lparr>sent := sent pinger0 + 1\<rparr>) 1 (readFrom env_reply) 1
     = recv_loop spec_lib (pinger0\<lparr>sent := sent pinger0 + 1\<rparr>) 1 (readFrom env_reply) (1 + 1)
   \<and> readFrom env_reply 2 = Datagram foreign_reply_1 1500000
   \<and> \<not> accepts spec_lib pinger0 1 foreign_reply_1
   \<and> recv_loop spec_lib (pinger0\<lparr>sent := sent pinger0 + 1\<rparr>) 1 (readFrom env_reply) 2
     = recv_loop spec_lib (pinger0\<lparr>sent := sent pinger0 + 1\<rparr>) 1 (readFrom env_reply) (2 + 1)"
proof -
  have id: "ident pinger0 = 4464" "\<not> isIPv6 pinger0" "8 \<le> PayloadSize pinger0"
    by (simp_all add: pinger0_eq)
  have e: "SendPing spec_lib env_reply pinger0 1 =
     Some (Returns \<lparr>Seq = 1, RTT = 2000000, Received = True, Error = None\<rparr>,
           pinger0\<lparr>sent := 1, received := 1, rtts := [2000000]\<rparr>)"
    using SendPing_env_reply [OF id] by (simp add: pinger0_eq)
  have r1: "readFrom env_reply 1 = Datagram reply_2 900000"
    and r2: "readFrom env_reply 2 = Datagram foreign_reply_1 1500000"
    by (simp_all add: env_reply_def reads_reply_def)
  note n = accepts_spec_lib(2,3) [OF id(1,2)]
  show ?thesis
    using e r1 r2 n
      SendPing_matches_only [of spec_lib env_reply pinger0 1
        "\<lparr>Seq = 1, RTT = 2000000, Received = True, Error = None\<rparr>"
        "pinger0\<lparr>sent := 1, received := 1, rtts := [2000000]\<rparr>" 1 reply_2 900000]
      SendPing_matches_only [of spec_lib env_reply pinger0 1
        "\<lparr>Seq = 1, RTT = 2000000, Received = True, Error = None\<rparr>"
        "pinger0\<lparr>sent := 1, received := 1, rtts := [2000000]\<rparr>" 2 foreign_reply_1 1500000]
    by simp
qed





lemma Resolve_counters:
  "sent (snd (Resolve lib lookup p)) = sent p"
  "received (snd (Resolve lib lookup p)) = received p"
  "rtts (snd (Resolve lib lookup p)) = rtts p"
  by (simp_all add: Resolve_def split: sum.splits option.splits)

lemma step_invariant:
  assumes "step lib c p = Some p'"
    and "int (length (rtts p)) = received p \<and> received p \<le> sent p"
  shows "int (length (rtts p')) = received p' \<and> received p' \<le> sent p'"
proof (cases c)
  case (CallResolve lookup)
  then show ?thesis using assms by (auto simp: Resolve_counters)
next
  case (CallSendPing env seq)
  then obtain out where "SendPing lib env p seq = Some (out, p')"
    using assms(1) by auto
  then show ?thesis using assms(2) by (rule SendPing_invariant)
next
  case CallStatistics
  then show ?thesis using assms by simp
next
  case (CallAssign h c i t n v)
  then show ?thesis using assms by auto
qed

lemma run_invariant:
  "run lib cs p = Some p' \<Longrightarrow> int (length (rtts p)) = received p \<and> received p \<le> sent p \<Longrightarrow>
   int (length (rtts p')) = received p' \<and> received p' \<le> sent p'"
proof (induction cs arbitrary: p)
  case Nil
  then show ?case by simp
next
  case (Cons c cs)
  then obtain q where q: "step lib c p = Some q" "run lib cs q = Some p'"
    by (auto split: option.splits)
  have "int (length (rtts q)) = received q \<and> received q \<le> sent q"
    using q(1) Cons.prems(2) by (rule step_invariant)
  with q(2) show ?case by (rule Cons.IH)
qed

text \<open>Claim C9. After every run of calls on a new \<open>Pinger\<close> (\<open>Resolve\<close>, \<open>SendPing\<close>,
  \<open>Statistics\<close> and assignments to the exported fields, in any order), the number of stored
  round-trip times equals the received counter, and the received counter is at most the
  sent counter.\<close>

theorem Pinger_invariant:
  "run lib calls (NewPinger host pid) = Some p \<Longrightarrow>
   int (length (rtts p)) = received p \<and> received p \<le> sent p"
  by (erule run_invariant) (simp add: NewPinger_def)

lemma run_calls0:
  "run spec_lib calls0 (NewPinger ''localhost'' 70000) =
     Some (pinger0\<lparr>Count := 3, Verbose := True, sent := 2, received := 1, rtts := [2000000]\<rparr>)"
proof -
  define p1 where "p1 = pinger0\<lparr>Count := 3, Verbose := True\<rparr>"
  have s1: "step spec_lib (CallAssign ''localhost'' 3 1000000000 3000000000 56 True)
              (NewPinger ''localhost'' 70000) = Some ((NewPinger ''localhost'' 70000)\<lparr>Count := 3, Verbose := True\<rparr>)"
    by (simp add: NewPinger_def DefaultTimeout_def DefaultPayloadSize_def)
  have s2: "step spec_lib (CallResolve (Inr [[127, 0, 0, 1]]))
              ((NewPinger ''localhost'' 70000)\<lparr>Count := 3, Verbose := True\<rparr>) = Some p1"
    by (simp add: p1_def pinger0_eq Resolve_def NewPinger_def spec_lib_def go_To4_def
        DefaultTimeout_def DefaultPayloadSize_def)
  have id: "ident p1 = 4464" "\<not> isIPv6 p1" "8 \<le> PayloadSize p1"
    by (simp_all add: p1_def pinger0_eq)
  have s3: "step spec_lib (CallSendPing env_reply 1) p1
            = Some (p1\<lparr>sent := 1, received := 1, rtts := [2000000]\<rparr>)"
    using SendPing_env_reply [OF id] by (simp add: p1_def pinger0_eq)
  have s4: "step spec_lib (CallSendPing env_timeout 2) (p1\<lparr>sent := 1, received := 1, rtts := [2000000]\<rparr>)
            = Some (p1\<lparr>sent := 2, received := 1, rtts := [2000000]\<rparr>)"
    using SendPing_env_timeout [of "p1\<lparr>sent := 1, received := 1, rtts := [2000000]\<rparr>" 2]
    by (simp add: p1_def pinger0_eq)
  have s5: "step spec_lib (CallSendPing env_write_fails 3) (p1\<lparr>sent := 2, received := 1, rtts := [2000000]\<rparr>)
            = Some (p1\<lparr>sent := 2, received := 1, rtts := [2000000]\<rparr>)"
    using SendPing_env_write_fails [of "p1\<lparr>sent := 2, received := 1, rtts := [2000000]\<rparr>" 3]
    by (simp add: p1_def pinger0_eq)
  show ?thesis
    unfolding calls0_def
    by (simp del: step.simps add: s1 s2 s3 s4 s5) (simp add: p1_def)
qed

theorem Pinger_invariant_witness:
  "run spec_lib calls0 (NewPinger ''localhost'' 70000) =
     Some (pinger0\<lparr>Count := 3, Verbose := True, sent := 2, received := 1, rtts := [2000000]\<rparr>)
   \<and> int (length (rtts (pinger0\<lparr>Count := 3, Verbose := True, sent := 2, received := 1,
                               rtts := [2000000]\<rparr>)))
     = received (pinger0\<lparr>Count := 3, Verbose := True, sent := 2, received := 1, rtts := [2000000]\<rparr>)
   \<and> received (pinger0\<lparr>Count := 3, Verbose := True, sent := 2, received := 1, rtts := [2000000]\<rparr>)
     \<le> sent (pinger0\<lparr>Count := 3, Verbose := True, sent := 2, received := 1, rtts := [2000000]\<rparr>)"
  using Pinger_invariant [OF run_calls0] run_calls0 by blast

section \<open>Resolution and statistics\<close>

lemma first_To4_None: "first_To4 lib ips = None \<longleftrightarrow> (\<forall>ip\<in>set ips. To4 lib ip = None)"
  by (induction ips) (auto split: option.splits)

lemma first_To4_Some:
  "first_To4 lib ips = Some a \<Longrightarrow> \<exists>ip\<in>set ips. To4 lib ip = Some a"
  by (induction ips) (auto split: option.splits)

lemma first_To16_None: "first_To16 lib ips = None \<longleftrightarrow> (\<forall>ip\<in>set ips. To16 lib ip = None)"
  by (induction ips) auto

lemma first_To16_Some:
  "first_To16 lib ips = Some a \<Longrightarrow> a \<in> set ips \<and> To16 lib a \<noteq> None"
  by (induction ips) (auto split: if_splits)

text \<open>Claim C7. On a lookup result, \<open>Resolve\<close> prefers IPv4: if the result holds an
  address with a non-nil \<open>To4\<close>, it succeeds, takes such an address (converted) and sets the
  family to IPv4; when it succeeds with the family IPv6, the result holds no IPv4 address
  and the address taken is one of the result with a non-nil \<open>To16\<close>; it fails exactly when
  no address of the result is usable in either family, with the error "no usable IP
  address" and the session unchanged.\<close>

theorem Resolve_prefers_IPv4:
  "Resolve lib (Inr ips) p = (err, p') \<Longrightarrow>
     ((\<exists>ip\<in>set ips. To4 lib ip \<noteq> None) \<longrightarrow>
        err = None \<and> \<not> isIPv6 p' \<and> network p' = ''ip4:icmp''
        \<and> (\<exists>ip\<in>set ips. To4 lib ip \<noteq> None \<and> addr p' = To4 lib ip))
   \<and> (err = None \<and> isIPv6 p' \<longrightarrow>
        (\<forall>ip\<in>set ips. To4 lib ip = None) \<and> network p' = ''ip6:ipv6-icmp''
        \<and> (\<exists>ip\<in>set ips. To16 lib ip \<noteq> None \<and> addr p' = Some ip))
   \<and> (err \<noteq> None \<longleftrightarrow> (\<forall>ip\<in>set ips. To4 lib ip = None \<and> To16 lib ip = None))
   \<and> (err \<noteq> None \<longrightarrow> err = Some (NoUsableIP (Host p)) \<and> p' = p)"
proof (cases "first_To4 lib ips")
  case (Some ip4)
  then obtain ip where ip: "ip \<in> set ips" "To4 lib ip = Some ip4"
    using first_To4_Some by blast
  assume "Resolve lib (Inr ips) p = (err, p')"
  then have "err = None" "p' = p\<lparr>addr := Some ip4, network := ''ip4:icmp'', isIPv6 := False\<rparr>"
    using Some by (simp_all add: Resolve_def)
  then show ?thesis using ip by auto
next
  case None
  then have no4: "\<forall>ip\<in>set ips. To4 lib ip = None" by (simp add: first_To4_None)
  assume r: "Resolve lib (Inr ips) p = (err, p')"
  show ?thesis
  proof (cases "first_To16 lib ips")
    case (Some ip)
    then have ip: "ip \<in> set ips" "To16 lib ip \<noteq> None" using first_To16_Some by blast+
    have "err = None" "p' = p\<lparr>addr := Some ip, network := ''ip6:ipv6-icmp'', isIPv6 := True\<rparr>"
      using r None Some by (simp_all add: Resolve_def)
    then show ?thesis using ip no4 by auto
  next
    case n16: None
    then have no16: "\<forall>ip\<in>set ips. To16 lib ip = None" by (simp add: first_To16_None)
    have "err = Some (NoUsableIP (Host p))" "p' = p"
      using r None n16 by (auto simp: Resolve_def)
    then show ?thesis using no4 no16 by auto
  qed
qed

lemma To4_examples:
  "To4 spec_lib cloudflare_v6 = None" "To4 spec_lib google_v4 = Some google_v4"
  "To16 spec_lib cloudflare_v6 = Some cloudflare_v6" "To4 spec_lib [1, 2, 3] = None"
  "To16 spec_lib [1, 2, 3] = None"
  by (simp_all add: spec_lib_def go_To4_def go_To16_def cloudflare_v6_def google_v4_def)

theorem Resolve_prefers_IPv4_witness:
  "Resolve spec_lib (Inr [cloudflare_v6, google_v4]) pinger0
     = (None, pinger0\<lparr>addr := Some google_v4, network := ''ip4:icmp'', isIPv6 := False\<rparr>)
   \<and> (\<exists>ip\<in>set [cloudflare_v6, google_v4]. To4 spec_lib ip \<noteq> None)
   \<and> \<not> isIPv6 (pinger0\<lparr>addr := Some google_v4, network := ''ip4:icmp'', isIPv6 := False\<rparr>)
   \<and> addr (pinger0\<lparr>addr := Some google_v4, network := ''ip4:icmp'', isIPv6 := False\<rparr>)
       = To4 spec_lib google_v4
   \<and> Resolve spec_lib (Inr [cloudflare_v6]) pinger0
     = (None, pinger0\<lparr>addr := Some cloudflare_v6, network := ''ip6:ipv6-icmp'', isIPv6 := True\<rparr>)
   \<and> To4 spec_lib cloudflare_v6 = None
   \<and> Resolve spec_lib (Inr [[1, 2, 3]]) pinger0 = (Some (NoUsableIP (Host pinger0)), pinger0)
   \<and> To4 spec_lib [1, 2, 3] = None \<and> To16 spec_lib [1, 2, 3] = None"
proof -
  have a: "Resolve spec_lib (Inr [cloudflare_v6, google_v4]) pinger0
     = (None, pinger0\<lparr>addr := Some google_v4, network := ''ip4:icmp'', isIPv6 := False\<rparr>)"
    by (simp add: Resolve_def To4_examples)
  have b: "Resolve spec_lib (Inr [cloudflare_v6]) pinger0
     = (None, pinger0\<lparr>addr := Some cloudflare_v6, network := ''ip6:ipv6-icmp'', isIPv6 := True\<rparr>)"
    by (simp add: Resolve_def To4_examples)
  have c: "Resolve spec_lib (Inr [[1, 2, 3]]) pinger0 = (Some (NoUsableIP (Host pinger0)), pinger0)"
    by (simp add: Resolve_def To4_examples)
  have d: "\<exists>ip\<in>set [cloudflare_v6, google_v4]. To4 spec_lib ip \<noteq> None"
    by (simp add: To4_examples)
  have e: "\<not> isIPv6 (pinger0\<lparr>addr := Some google_v4, network := ''ip4:icmp'', isIPv6 := False\<rparr>)"
    using Resolve_prefers_IPv4 [OF a] d by blast
  have f: "addr (pinger0\<lparr>addr := Some google_v4, network := ''ip4:icmp'', isIPv6 := False\<rparr>)
       = To4 spec_lib google_v4"
    by (simp add: To4_examples)
  show ?thesis
    using a b c d e f To4_examples(1,4,5) by blast
qed

subsection \<open>float64 rounding\<close>

text \<open>\<open>exponent\<close> finds the binade of a positive number; \<open>round64\<close> is off by at most
  half a unit in the last place, a relative error of \<open>2 ^ - 53\<close>; integers below
  \<open>2 ^ 53\<close> in magnitude convert exactly. Hence the loss that \<open>Statistics\<close> computes is
  within a relative error of \<open>2 ^ - 51\<close> of \<open>100 * a / b\<close>.\<close>

lemma pow2_powi: "pow2 e = 2 powi e"
  by (simp add: pow2_def power_int_def field_simps flip: power_inverse)

lemma pow2_pos: "0 < pow2 e"
  by (simp add: pow2_powi)

lemma pow2_add: "pow2 (a + b) = pow2 a * pow2 b"
  by (simp add: pow2_powi power_int_add)

lemma pow2_nat: "0 \<le> e \<Longrightarrow> pow2 e = 2 ^ nat e"
  by (simp add: pow2_def)

lemma pow2_mono: "a \<le> b \<Longrightarrow> pow2 a \<le> pow2 b"
  by (simp add: pow2_powi power_int_increasing)

lemma round_half_even_error: "\<bar>of_int (round_half_even x) - x\<bar> \<le> 1 / 2"
proof -
  define f d where "f = \<lfloor>x\<rfloor>" and "d = x - of_int \<lfloor>x\<rfloor>"
  have d: "0 \<le> d" "d < 1" unfolding d_def by linarith+
  have x: "x = of_int f + d" by (simp add: f_def d_def)
  have r: "round_half_even x =
            (if d < 1 / 2 then f else if 1 / 2 < d then f + 1 else if even f then f else f + 1)"
    by (simp add: round_half_even_def Let_def f_def d_def)
  consider "round_half_even x = f" "d \<le> 1 / 2" | "round_half_even x = f + 1" "1 / 2 \<le> d"
    unfolding r by (cases "d < 1 / 2"; cases "1 / 2 < d"; cases "even f") auto
  then show ?thesis
  proof cases
    case 1
    then show ?thesis using d unfolding x by simp
  next
    case 2
    then show ?thesis using d unfolding x by simp
  qed
qed

lemma round_half_even_int: "round_half_even (of_int n) = n"
  by (simp add: round_half_even_def)

lemma exponent_bounds:
  assumes "0 < x"
  shows "pow2 (exponent x) \<le> x \<and> x < pow2 (exponent x + 1)"
proof -
  obtain a b where q: "quotient_of x = (a, b)" by (cases "quotient_of x")
  then have b: "0 < b" and x: "x = of_int a / of_int b"
    using quotient_of_denom_pos quotient_of_div by blast+
  have a: "0 < a" using assms b x by (simp add: zero_less_divide_iff)
  define la lb where "la = bitlen a" and "lb = bitlen b"
  have la1: "1 \<le> la" and lb1: "1 \<le> lb"
    using a b bitlen_eq_zero_iff [of a] bitlen_eq_zero_iff [of b] bitlen_nonneg [of a] bitlen_nonneg [of b]
    unfolding la_def lb_def by linarith+
  have "2 ^ nat (la - 1) \<le> a" "a < 2 ^ nat la" "2 ^ nat (lb - 1) \<le> b" "b < 2 ^ nat lb"
    using bitlen_bounds [OF a] bitlen_bounds [OF b] unfolding la_def lb_def by simp_all
  then have "(of_int (2 ^ nat (la - 1)) :: rat) \<le> of_int a" "(of_int a :: rat) < of_int (2 ^ nat la)"
    "(of_int (2 ^ nat (lb - 1)) :: rat) \<le> of_int b" "(of_int b :: rat) < of_int (2 ^ nat lb)"
    by (simp_all only: of_int_le_iff of_int_less_iff)
  then have ra: "pow2 (la - 1) \<le> of_int a" "of_int a < pow2 la"
    and rb: "pow2 (lb - 1) \<le> of_int b" "of_int b < pow2 lb"
    using la1 lb1 by (simp_all add: pow2_nat)
  have lo: "pow2 (la - lb - 1) < x"
  proof -
    have "pow2 (la - lb - 1) * of_int b < pow2 (la - lb - 1) * pow2 lb"
      using rb(2) pow2_pos by simp
    also have "\<dots> = pow2 (la - 1)" by (simp flip: pow2_add)
    also have "\<dots> \<le> of_int a" by (rule ra(1))
    finally show ?thesis using b unfolding x by (simp add: pos_less_divide_eq)
  qed
  have hi: "x < pow2 (la - lb + 1)"
  proof -
    have "of_int a < pow2 la" by (rule ra(2))
    also have "\<dots> = pow2 (la - lb + 1) * pow2 (lb - 1)" by (simp flip: pow2_add)
    also have "\<dots> \<le> pow2 (la - lb + 1) * of_int b"
      using rb(1) pow2_pos [of "la - lb + 1"] by simp
    finally show ?thesis using b unfolding x by (simp add: pos_divide_less_eq)
  qed
  have e: "exponent x = (if x < pow2 (la - lb) then la - lb - 1 else la - lb)"
    by (simp add: exponent_def q la_def lb_def Let_def)
  show ?thesis
  proof (cases "x < pow2 (la - lb)")
    case True
    then show ?thesis using lo e by simp
  next
    case False
    then show ?thesis using hi e by simp
  qed
qed

lemma pow2_less_imp: "pow2 a < pow2 b \<Longrightarrow> a < b"
  using pow2_mono [of b a] by (cases "a < b") auto

lemma round64_mantissa:
  assumes "x \<noteq> 0"
  shows "round64 x = sgn x * of_int (round_half_even (\<bar>x\<bar> * pow2 (52 - exponent \<bar>x\<bar>)))
                     * pow2 (exponent \<bar>x\<bar> - 52)"
    and "x = sgn x * (\<bar>x\<bar> * pow2 (52 - exponent \<bar>x\<bar>)) * pow2 (exponent \<bar>x\<bar> - 52)"
proof -
  show "round64 x = sgn x * of_int (round_half_even (\<bar>x\<bar> * pow2 (52 - exponent \<bar>x\<bar>)))
                     * pow2 (exponent \<bar>x\<bar> - 52)"
    using assms by (simp add: round64_def Let_def)
  have "pow2 (52 - exponent \<bar>x\<bar>) * pow2 (exponent \<bar>x\<bar> - 52) = 1"
    by (simp add: pow2_def flip: pow2_add)
  then have "sgn x * (\<bar>x\<bar> * pow2 (52 - exponent \<bar>x\<bar>)) * pow2 (exponent \<bar>x\<bar> - 52) = sgn x * \<bar>x\<bar>"
    by (simp add: mult.assoc)
  then show "x = sgn x * (\<bar>x\<bar> * pow2 (52 - exponent \<bar>x\<bar>)) * pow2 (exponent \<bar>x\<bar> - 52)"
    by (simp add: sgn_mult_abs)
qed

lemma round64_error: "\<bar>round64 x - x\<bar> \<le> \<bar>x\<bar> / 2 ^ 53"
proof (cases "x = 0")
  case True
  then show ?thesis by (simp add: round64_def)
next
  case False
  define e where "e = exponent \<bar>x\<bar>"
  define y where "y = \<bar>x\<bar> * pow2 (52 - e)"
  define m where "m = round_half_even y"
  have pe: "pow2 e \<le> \<bar>x\<bar>" using exponent_bounds [of "\<bar>x\<bar>"] False by (simp add: e_def)
  have "round64 x - x = sgn x * (of_int m - y) * pow2 (e - 52)"
    using round64_mantissa [OF False]
    unfolding e_def [symmetric] y_def [symmetric] m_def [symmetric]
    by (simp add: algebra_simps)
  then have "\<bar>round64 x - x\<bar> = \<bar>of_int m - y\<bar> * pow2 (e - 52)"
    using False pow2_pos [of "e - 52"] by (simp add: abs_mult abs_sgn_eq)
  also have "\<dots> \<le> 1 / 2 * pow2 (e - 52)"
    using round_half_even_error [of y] pow2_pos [of "e - 52"] unfolding m_def
    by (intro mult_right_mono) simp_all
  also have "pow2 (e - 52) = pow2 e * pow2 (- 52)" by (simp flip: pow2_add)
  also have "1 / 2 * (pow2 e * pow2 (- 52)) = pow2 e / 2 ^ 53" by (simp add: pow2_def)
  also have "\<dots> \<le> \<bar>x\<bar> / 2 ^ 53" using pe by (simp add: divide_right_mono)
  finally show ?thesis .
qed

lemma float64_exact:
  assumes "\<bar>n\<bar> < 2 ^ 53"
  shows "float64 n = of_int n"
proof (cases "n = 0")
  case True
  then show ?thesis by (simp add: float64_def round64_def)
next
  case False
  define x :: rat where "x = of_int n"
  define e where "e = exponent \<bar>x\<bar>"
  have x0: "x \<noteq> 0" using False by (simp add: x_def)
  have ax: "\<bar>x\<bar> = of_int \<bar>n\<bar>" by (simp add: x_def)
  have "pow2 e \<le> \<bar>x\<bar>" using exponent_bounds [of "\<bar>x\<bar>"] x0 by (simp add: e_def)
  also have "\<bar>x\<bar> < of_int (2 ^ 53)" unfolding ax using assms by (simp only: of_int_less_iff)
  also have "(of_int (2 ^ 53) :: rat) = pow2 53" by (simp add: pow2_def)
  finally have "e < 53" by (rule pow2_less_imp)
  then have e: "0 \<le> 52 - e" by simp
  have "\<bar>x\<bar> * pow2 (52 - e) = of_int (\<bar>n\<bar> * 2 ^ nat (52 - e))"
    unfolding ax pow2_nat [OF e] by simp
  then have "round_half_even (\<bar>x\<bar> * pow2 (52 - e)) = \<bar>n\<bar> * 2 ^ nat (52 - e)"
    by (simp only: round_half_even_int)
  then have "of_int (round_half_even (\<bar>x\<bar> * pow2 (52 - e))) = \<bar>x\<bar> * pow2 (52 - e)"
    unfolding ax pow2_nat [OF e] by simp
  then have "round64 x = x"
    using round64_mantissa [OF x0] unfolding e_def [symmetric] by simp
  then show ?thesis by (simp add: float64_def x_def)
qed

lemma loss_accuracy:
  assumes "0 \<le> a" "a < 2 ^ 53" "0 < b" "b < 2 ^ 53"
  shows "\<bar>fmul (fdiv (float64 a) (float64 b)) 100 - 100 * of_int a / of_int b\<bar>
         \<le> 100 * of_int a / of_int b / 2 ^ 51"
proof -
  define r :: rat where "r = of_int a / of_int b"
  define q where "q = round64 r"
  define l where "l = round64 (q * 100)"
  have r0: "0 \<le> r" using assms by (simp add: r_def)
  have fa: "float64 a = of_int a" "float64 b = of_int b"
    using assms by (simp_all add: float64_exact)
  have L: "fmul (fdiv (float64 a) (float64 b)) 100 = l"
    by (simp add: fmul_def fdiv_def fa l_def q_def r_def)
  have e1: "\<bar>q - r\<bar> \<le> r / 2 ^ 53" using round64_error [of r] r0 by (simp add: q_def)
  have e2: "\<bar>l - q * 100\<bar> \<le> \<bar>q * 100\<bar> / 2 ^ 53" using round64_error [of "q * 100"] by (simp add: l_def)
  define t where "t = r / 2 ^ 53"
  have t0: "0 \<le> t" using r0 by (simp add: t_def)
  have e1': "\<bar>q - r\<bar> \<le> t" using e1 by (simp add: t_def)
  have tr: "4 * t = r / 2 ^ 51" by (simp add: t_def)
  have tl: "t \<le> r" using r0 by (simp add: t_def field_simps)
  have q0: "0 \<le> q" using e1' tl by linarith
  have qu: "q \<le> r + t" using e1' by linarith
  have "\<bar>q * 100\<bar> / 2 ^ 53 = 100 * (q / 2 ^ 53)" using q0 by simp
  also have "q / 2 ^ 53 \<le> (r + t) / 2 ^ 53" using qu by (simp add: divide_right_mono)
  also have "(r + t) / 2 ^ 53 = t + t / 2 ^ 53" by (simp add: t_def add_divide_distrib)
  also have "t / 2 ^ 53 \<le> t" using t0 by (simp add: field_simps)
  finally have e2': "\<bar>q * 100\<bar> / 2 ^ 53 \<le> 200 * t" by simp
  have "\<bar>l - 100 * r\<bar> \<le> 4 * (100 * t)"
    using e1' e2 e2' t0 by linarith
  then have "\<bar>l - 100 * r\<bar> \<le> 100 * r / 2 ^ 51"
    using tr by (simp add: mult.commute)
  then show ?thesis unfolding L r_def by simp
qed

subsection \<open>Statistics of a session\<close>

lemma rtt_loop_fold:
  "rtt_loop rs (t, mn, mx) = (t + sum_list rs, fold min rs mn, fold max rs mx)"
proof (induction rs arbitrary: t mn mx)
  case Nil
  show ?case by simp
next
  case (Cons r rs)
  have "(if r < mn then r else mn) = min r mn" "(if r > mx then r else mx) = max r mx"
    by (simp_all add: min_def max_def)
  then show ?case using Cons by (simp add: add.assoc)
qed

lemma Statistics_eq:
  "Statistics p =
     \<lparr>Sent = sent p, Received_st = received p, Lost = sent p - received p,
      Loss = (if sent p > 0 then fmul (fdiv (float64 (sent p - received p)) (float64 (sent p))) 100
              else 0),
      Min_st = (if rtts p = [] then 0 else Min (set (rtts p))),
      Max_st = (if rtts p = [] then 0 else Max (set (rtts p))),
      Avg = (if rtts p = [] then 0 else sum_list (rtts p) sdiv int (length (rtts p)))\<rparr>"
proof (cases "rtts p")
  case Nil
  then show ?thesis by (simp add: Statistics_def Let_def)
next
  case (Cons x xs)
  have "rtt_loop (rtts p) (0, rtts p ! 0, rtts p ! 0)
        = (sum_list (x # xs), fold min xs x, fold max xs x)"
    unfolding Cons rtt_loop_fold by simp
  also have "fold min xs x = Min (set (x # xs))" by (simp only: Min.set_eq_fold)
  also have "fold max xs x = Max (set (x # xs))" by (simp only: Max.set_eq_fold)
  finally have "rtt_loop (rtts p) (0, rtts p ! 0, rtts p ! 0)
        = (sum_list (rtts p), Min (set (rtts p)), Max (set (rtts p)))"
    unfolding Cons .
  then show ?thesis using Cons by (simp add: Statistics_def Let_def)
qed

lemma session_counters:
  "session lib probes p0 = Some (rs, p) \<Longrightarrow>
     sent p = sent p0 + transmitted_count rs
     \<and> received p = received p0 + int (length (received_rtts rs))
     \<and> rtts p = rtts p0 @ received_rtts rs
     \<and> length rs = length probes
     \<and> length (received_rtts rs) \<le> nat (transmitted_count rs)"
proof (induction probes arbitrary: p0 rs)
  case Nil
  then show ?case by (simp add: transmitted_count_def received_rtts_def)
next
  case (Cons pr probes)
  obtain env seq where pr: "pr = (env, seq)" by (cases pr)
  from Cons.prems obtain r p1 rs' where
    sp: "SendPing lib env p0 seq = Some (Returns r, p1)"
    and se: "session lib probes p1 = Some (rs', p)" and rs: "rs = r # rs'"
    unfolding pr by (auto split: option.splits outcome.splits prod.splits)
  note c = SendPing_counters [OF sp]
  note ih = Cons.IH [OF se]
  show ?case
    using c ih unfolding rs by (auto simp: transmitted_count_def received_rtts_def)
qed

text \<open>Claim C6, as the code has it. For every session from zeroed counters, with \<open>N\<close> the
  number of probes whose request was transmitted (their result carries no error; \<open>N\<close> is
  the number of probes issued when none failed) and \<open>k\<close> the number of received ones:
  \<open>Statistics\<close> gives sent \<open>N\<close>, received \<open>k\<close>, lost \<open>N - k\<close>, as loss the \<open>float64\<close>
  value of \<open>float64(N - k) / float64(N) * 100\<close> (each operation rounded; 0 when \<open>N = 0\<close>),
  and minimum, maximum and truncated average of the round-trip times of the received
  probes, all three zero when none was received; and \<open>k \<le> N\<close>. For \<open>0 < N < 2 ^ 53\<close> the
  loss differs from \<open>100 * (N - k) / N\<close> by at most that number times \<open>2 ^ - 51\<close>.\<close>

theorem Statistics_of_session:
  assumes "session lib probes p0 = Some (rs, p)"
    and "sent p0 = 0" and "received p0 = 0" and "rtts p0 = []"
  shows "Statistics p =
           \<lparr>Sent = transmitted_count rs,
            Received_st = int (length (received_rtts rs)),
            Lost = transmitted_count rs - int (length (received_rtts rs)),
            Loss = (if transmitted_count rs = 0 then 0
                    else fmul (fdiv (float64 (transmitted_count rs - int (length (received_rtts rs))))
                                    (float64 (transmitted_count rs))) 100),
            Min_st = (if received_rtts rs = [] then 0 else Min (set (received_rtts rs))),
            Max_st = (if received_rtts rs = [] then 0 else Max (set (received_rtts rs))),
            Avg = (if received_rtts rs = [] then 0
                   else sum_list (received_rtts rs) sdiv int (length (received_rtts rs)))\<rparr>
         \<and> int (length (received_rtts rs)) \<le> transmitted_count rs
         \<and> transmitted_count rs \<le> int (length probes)
         \<and> (list_all (\<lambda>r. Error r = None) rs \<longrightarrow> transmitted_count rs = int (length probes))
         \<and> (0 < transmitted_count rs \<and> transmitted_count rs < 2 ^ 53 \<longrightarrow>
              \<bar>Loss (Statistics p)
                - 100 * of_int (transmitted_count rs - int (length (received_rtts rs)))
                  / of_int (transmitted_count rs)\<bar>
              \<le> 100 * of_int (transmitted_count rs - int (length (received_rtts rs)))
                  / of_int (transmitted_count rs) / 2 ^ 51)"
proof -
  note c = session_counters [OF assms(1)]
  have s: "sent p = transmitted_count rs" "received p = int (length (received_rtts rs))"
    "rtts p = received_rtts rs"
    using c assms(2-4) by simp_all
  have n: "0 \<le> transmitted_count rs" by (simp add: transmitted_count_def)
  have le: "transmitted_count rs \<le> int (length probes)"
    using c length_filter_le [of "\<lambda>r. Error r = None" rs] by (simp add: transmitted_count_def)
  have all: "transmitted_count rs = int (length probes)" if "list_all (\<lambda>r. Error r = None) rs"
  proof -
    have "filter (\<lambda>r. Error r = None) rs = rs" using that by (simp add: list_all_iff)
    then show ?thesis using c by (simp add: transmitted_count_def)
  qed
  have st: "Statistics p =
           \<lparr>Sent = transmitted_count rs,
            Received_st = int (length (received_rtts rs)),
            Lost = transmitted_count rs - int (length (received_rtts rs)),
            Loss = (if transmitted_count rs = 0 then 0
                    else fmul (fdiv (float64 (transmitted_count rs - int (length (received_rtts rs))))
                                    (float64 (transmitted_count rs))) 100),
            Min_st = (if received_rtts rs = [] then 0 else Min (set (received_rtts rs))),
            Max_st = (if received_rtts rs = [] then 0 else Max (set (received_rtts rs))),
            Avg = (if received_rtts rs = [] then 0
                   else sum_list (received_rtts rs) sdiv int (length (received_rtts rs)))\<rparr>"
    unfolding Statistics_eq s using n by auto
  have k: "int (length (received_rtts rs)) \<le> transmitted_count rs" using c n by linarith
  have acc: "\<bar>Loss (Statistics p)
                - 100 * of_int (transmitted_count rs - int (length (received_rtts rs)))
                  / of_int (transmitted_count rs)\<bar>
              \<le> 100 * of_int (transmitted_count rs - int (length (received_rtts rs)))
                  / of_int (transmitted_count rs) / 2 ^ 51"
    if pos: "0 < transmitted_count rs" and small: "transmitted_count rs < 2 ^ 53"
  proof -
    have L: "Loss (Statistics p)
          = fmul (fdiv (float64 (transmitted_count rs - int (length (received_rtts rs))))
                       (float64 (transmitted_count rs))) 100"
      unfolding st using pos by simp
    have a0: "0 \<le> transmitted_count rs - int (length (received_rtts rs))"
      and a1: "transmitted_count rs - int (length (received_rtts rs)) < 2 ^ 53"
      using k small by simp_all
    show ?thesis unfolding L by (rule loss_accuracy [OF a0 a1 pos small])
  qed
  show ?thesis using st k le all acc by blast
qed

lemma SendPing_env_stale_2:
  assumes "ident p = 4464" "\<not> isIPv6 p" "8 \<le> PayloadSize p"
  shows "SendPing spec_lib env_stale p 2 =
           Some (Returns \<lparr>Seq = 2, RTT = 900000, Received = True, Error = None\<rparr>,
                 p\<lparr>sent := sent p + 1, received := received p + 1,
                   rtts := rtts p @ [900000]\<rparr>)"
proof (rule SendPing_reply_lemma [where k = 0 and d = reply_2])
  show "transmitted spec_lib env_stale p 2"
    using assms by (intro spec_lib_transmitted) (simp_all add: env_stale_def)
  show "readFrom env_stale 0 = Datagram reply_2 900000"
    by (simp add: env_stale_def reads_stale_def)
  show "accepts spec_lib p 2 reply_2" using assms by (simp add: accepts_spec_lib)
  show "\<forall>j<0. \<exists>d' t'. readFrom env_stale j = Datagram d' t' \<and> \<not> accepts spec_lib p 2 d'"
    by simp
qed

lemma session_probes0:
  "session spec_lib probes0 pinger0 =
     Some (results0, pinger0\<lparr>sent := 3, received := 2, rtts := [2000000, 900000]\<rparr>)"
proof -
  define q1 where "q1 = pinger0\<lparr>sent := 1, received := 1, rtts := [2000000]\<rparr>"
  define q2 where "q2 = pinger0\<lparr>sent := 2, received := 2, rtts := [2000000, 900000]\<rparr>"
  define q3 where "q3 = pinger0\<lparr>sent := 3, received := 2, rtts := [2000000, 900000]\<rparr>"
  have e1: "SendPing spec_lib env_reply pinger0 1
            = Some (Returns \<lparr>Seq = 1, RTT = 2000000, Received = True, Error = None\<rparr>, q1)"
    using SendPing_env_reply [of pinger0] by (simp add: q1_def pinger0_eq)
  have e2: "SendPing spec_lib env_stale q1 2
            = Some (Returns \<lparr>Seq = 2, RTT = 900000, Received = True, Error = None\<rparr>, q2)"
    using SendPing_env_stale_2 [of q1] by (simp add: q1_def q2_def pinger0_eq)
  have e3: "SendPing spec_lib env_timeout q2 3
            = Some (Returns \<lparr>Seq = 3, RTT = 0, Received = False, Error = None\<rparr>, q3)"
    using SendPing_env_timeout [of q2 3] by (simp add: q2_def q3_def pinger0_eq)
  show ?thesis
    unfolding probes0_def results0_def by (simp add: e1 e2 e3) (simp add: q3_def)
qed

lemma loss_1_of_3: "fmul (fdiv (float64 1) (float64 3)) 100 = 2345624805922133 / 70368744177664"
  by code_simp

theorem Statistics_of_session_witness:
  "session spec_lib probes0 pinger0 =
     Some (results0, pinger0\<lparr>sent := 3, received := 2, rtts := [2000000, 900000]\<rparr>)
   \<and> sent pinger0 = 0 \<and> received pinger0 = 0 \<and> rtts pinger0 = []
   \<and> Statistics (pinger0\<lparr>sent := 3, received := 2, rtts := [2000000, 900000]\<rparr>) =
       \<lparr>Sent = 3, Received_st = 2, Lost = 1, Loss = 2345624805922133 / 70368744177664,
        Min_st = 900000, Max_st = 2000000, Avg = 1450000\<rparr>
   \<and> transmitted_count results0 = 3 \<and> transmitted_count results0 < 2 ^ 53
   \<and> \<bar>Loss (Statistics (pinger0\<lparr>sent := 3, received := 2, rtts := [2000000, 900000]\<rparr>))
        - 100 * (3 - 2) / 3\<bar> \<le> 100 * (3 - 2) / 3 / 2 ^ 51"
proof -
  have z: "sent pinger0 = 0" "received pinger0 = 0" "rtts pinger0 = []"
    by (simp_all add: pinger0_eq)
  have t: "transmitted_count results0 = 3" "received_rtts results0 = [2000000, 900000]"
    by (simp_all add: transmitted_count_def received_rtts_def results0_def)
  note th = Statistics_of_session [OF session_probes0 z, unfolded t]
  have a: "Statistics (pinger0\<lparr>sent := 3, received := 2, rtts := [2000000, 900000]\<rparr>) =
       \<lparr>Sent = 3, Received_st = 2, Lost = 1, Loss = 2345624805922133 / 70368744177664,
        Min_st = 900000, Max_st = 2000000, Avg = 1450000\<rparr>"
    using th [THEN conjunct1] by (simp add: signed_divide_int_def loss_1_of_3)
  have b: "\<bar>Loss (Statistics (pinger0\<lparr>sent := 3, received := 2, rtts := [2000000, 900000]\<rparr>))
        - 100 * (3 - 2) / 3\<bar> \<le> 100 * (3 - 2) / 3 / 2 ^ 51"
    using th [THEN conjunct2, THEN conjunct2, THEN conjunct2, THEN conjunct2] by simp
  show ?thesis using session_probes0 z a b t(1) by simp
qed

text \<open>Claim C6 as stated fails when a probe is issued and its write fails: one probe
  was issued and \<open>Statistics\<close> reports sent = 0. And with 3 sent and 2 received the loss is
  the \<open>float64\<close> 33.33333333333333, which is not \<open>100 * (3 - 2) / 3\<close>.\<close>

theorem Statistics_of_session_counterexample:
  "session spec_lib [(env_write_fails, 1)] pinger0 =
     Some ([\<lparr>Seq = 1, RTT = 0, Received = False,
             Error = Some (WriteError (SysError ''sendto: network is unreachable''))\<rparr>], pinger0)
   \<and> length [(env_write_fails, 1 :: int)] = 1
   \<and> Sent (Statistics pinger0) = 0
   \<and> Loss (Statistics (pinger0\<lparr>sent := 3, received := 2, rtts := [2000000, 900000]\<rparr>))
       = 2345624805922133 / 70368744177664
   \<and> Loss (Statistics (pinger0\<lparr>sent := 3, received := 2, rtts := [2000000, 900000]\<rparr>))
       \<noteq> 100 * (3 - 2) / 3"
proof -
  have "SendPing spec_lib env_write_fails pinger0 1 =
       Some (Returns \<lparr>Seq = 1, RTT = 0, Received = False,
                      Error = Some (WriteError (SysError ''sendto: network is unreachable''))\<rparr>,
             pinger0)"
    using SendPing_env_write_fails [of pinger0 1] by (simp add: pinger0_eq)
  then have a: "session spec_lib [(env_write_fails, 1)] pinger0 =
     Some ([\<lparr>Seq = 1, RTT = 0, Received = False,
             Error = Some (WriteError (SysError ''sendto: network is unreachable''))\<rparr>], pinger0)"
    by simp
  have b: "Sent (Statistics pinger0) = 0"
    by (simp add: Statistics_eq pinger0_eq)
  have c: "Loss (Statistics (pinger0\<lparr>sent := 3, received := 2, rtts := [2000000, 900000]\<rparr>))
       = 2345624805922133 / 70368744177664"
    by (simp add: Statistics_eq loss_1_of_3)
  have d: "(2345624805922133 / 70368744177664 :: rat) \<noteq> 100 * (3 - 2) / 3" by simp
  show ?thesis using a b c d by simp
qed

end
